theory Spec2Isabelle
  imports Main "HOL-Library.Word" "HOL-Library.AList"
begin

unbundle bit_operations_syntax

section \<open>The in-kernel Ruby stack walker of rbperf (src/bpf/rbperf.bpf.c)\<close>

text \<open>
  The two BPF programs of the file, \<open>on_event\<close> and \<open>walk_ruby_stack\<close>, are embedded as
  functions on an explicit kernel state (the BPF maps and the output channel). What the
  programs read from outside (the memory of the profiled process, the current task, the
  clock, the pseudo-random generator) is an environment record that one sampled event
  sees as a snapshot. \<open>LOG\<close> only writes to the trace pipe when \<open>verbose\<close> is set and has
  no effect on the maps or on the output, so it is left out.
\<close>

subsection \<open>Machine types\<close>

type_synonym u32 = "32 word"
type_synonym u64 = "64 word"
type_synonym c_int = "32 word"  \<comment> \<open>a C \<open>int\<close>: read with \<open>sint\<close>, widened with \<open>scast\<close>\<close>

subsection \<open>Data model\<close>

text \<open>
  Modelled from the spec: the header \<open>rbperf.h\<close> that declares the structs and macros is
  not part of the sources. The records below have the fields that the C file reads and
  writes. A field has the type of the C variable it is copied to or from where the file
  fixes one (\<open>u64 cfp\<close>, \<open>int label_offset\<close>, \<open>int control_frame_t_sizeof\<close>,
  \<open>long long int actual_index\<close>); \<open>expected_size\<close> keeps the 64-bit quotient as the file
  computes it; \<open>size\<close> and \<open>ruby_stack_program_count\<close> are counters that the file only
  increments from zero below a bound, and are integers. Character buffers are strings
  of fixed length, padded with \<open>CHR 0x00\<close>.
\<close>

record ProcessData =
  rb_frame_addr :: u64
  rb_version :: u32
  start_time :: u64

record RubyVersionOffsets =
  vm_offset :: c_int
  vm_size_offset :: c_int
  control_frame_t_sizeof :: c_int
  cfp_offset :: c_int
  label_offset :: c_int
  path_flavour :: c_int
  line_info_size_offset :: c_int
  line_info_table_offset :: c_int
  lineno_offset :: c_int
  main_thread_offset :: c_int
  ec_offset :: c_int

record RubyFrame =
  method_name :: string
  path :: string
  lineno :: u32

datatype ruby_stack_status = STACK_COMPLETE | STACK_INCOMPLETE

record RubyStack =
  timestamp :: u64
  pid :: u32
  cpu :: u32
  syscall_id :: c_int
  comm :: string
  stack_status :: ruby_stack_status
  size_stack :: int  \<comment> \<open>the field \<open>size\<close>\<close>
  expected_size :: u64
  frames :: "u32 list"

record SampleState =
  stack :: RubyStack
  base_stack :: u64
  cfp :: u64
  ruby_stack_program_count :: int
  sample_rb_version :: u32  \<comment> \<open>the field \<open>rb_version\<close> of SampleState\<close>

datatype rbperf_event_type =
  RBPERF_EVENT_SYSCALL_UNKNOWN | RBPERF_EVENT_SYSCALL | RBPERF_EVENT_OTHER

text \<open>
  Modelled from the spec: the macros of the absent header are parameters, together with
  the four load-time variables that the C file declares \<open>const volatile\<close> (\<open>verbose\<close>
  only gates \<open>LOG\<close>). \<open>MAX_STACK\<close> is the dimension of the \<open>frames\<close> array and
  \<open>MAX_STACKS_PER_PROGRAM\<close> a loop bound; the sizes are the \<open>sizeof\<close> of the two
  buffers of a RubyFrame.
\<close>

record rbperf_consts =
  MAX_STACK :: nat
  MAX_STACKS_PER_PROGRAM :: nat
  BPF_PROGRAMS_COUNT :: int
  METHOD_MAXLEN :: nat
  PATH_MAXLEN :: nat
  iseq_offset :: u64
  body_offset :: u64
  ruby_location_offset :: u64
  path_offset :: u64
  as_offset :: u64
  PATH_TYPE_OFFSET :: u64
  rb_value_sizeof :: u64
  iseq_encoded_offset :: u64
  RUBY_T_MASK :: u64
  RUBY_T_STRING :: u64
  RUBY_T_ARRAY :: u64
  STRING_ON_HEAP :: "u64 \<Rightarrow> bool"
  use_ringbuf :: bool
  enable_pid_race_detector :: bool
  event_type :: rbperf_event_type

text \<open>
  Modelled from the spec: \<open>NATIVE_METHOD_NAME\<close> is a macro of the absent header; the spec
  gives the literal. \<open>sizeof\<close> of the literal counts the closing NUL.
\<close>

definition NATIVE_METHOD_NAME :: string where
  "NATIVE_METHOD_NAME = ''<native code>''"

definition NUL :: char where
  "NUL = CHR 0x00"

subsection \<open>Environment and kernel state\<close>

text \<open>
  What one sampled event reads from outside the maps. Memory of the profiled process is
  typed: a read of 8 bytes, of 4 bytes, or of a NUL-terminated string at an address, with
  \<open>None\<close> for a fault. \<open>prandom\<close> is the sequence of values that successive calls of
  \<open>bpf_get_prandom_u32\<close> return. \<open>continuation_loaded\<close> says whether the slot
  \<open>RBPERF_STACK_READING_PROGRAM_IDX\<close> of the \<open>programs\<close> array holds \<open>walk_ruby_stack\<close>,
  that is whether \<open>bpf_tail_call\<close> jumps or falls through.
\<close>

record env =
  mem_u64 :: "u64 \<rightharpoonup> u64"
  mem_u32 :: "u64 \<rightharpoonup> u32"
  mem_str :: "u64 \<rightharpoonup> string"
  current_pid_tgid :: u64
  current_task :: u64
  task_start_time :: "u64 option"
  ktime_ns :: u64
  smp_processor_id :: u32
  current_comm :: string
  ctx_syscall_nr :: "c_int option"
  prandom :: "nat \<Rightarrow> u32"
  continuation_loaded :: bool

text \<open>
  The maps of the file. A hash map is a list of key/value pairs with distinct keys, an
  array map a list of slots. \<open>global_state\<close> is a per-CPU array of one entry, so it is
  its single slot. \<open>events\<close> is the output channel: the records handed to the output
  helper, oldest first. \<open>prandom_calls\<close> counts the calls of the generator so far.
\<close>

record kernel =
  pid_to_rb_thread :: "(u32 \<times> ProcessData) list"
  id_to_stack :: "(u32 \<times> RubyFrame) list"
  stack_to_id :: "(RubyFrame \<times> u32) list"
  version_specific_offsets :: "RubyVersionOffsets list"
  global_state :: SampleState
  events :: "RubyStack list"
  prandom_calls :: nat

subsection \<open>BPF helpers\<close>

definition hash_max_entries :: nat where
  "hash_max_entries = 10240"

definition bpf_map_lookup_elem :: "('k \<times> 'v) list \<Rightarrow> 'k \<Rightarrow> 'v option" where
  "bpf_map_lookup_elem m key = map_of m key"

text \<open>
  \<open>BPF_ANY\<close> on a hash map: an existing key is overwritten; a new key is inserted
  unless the map already holds \<open>max_entries\<close> keys, in which case the call fails and the
  map is unchanged. The file ignores the return value.
\<close>

definition bpf_map_update_elem :: "('k \<times> 'v) list \<Rightarrow> 'k \<Rightarrow> 'v \<Rightarrow> ('k \<times> 'v) list" where
  "bpf_map_update_elem m key v =
     (if map_of m key \<noteq> None \<or> length m < hash_max_entries
      then AList.update key v m else m)"

text \<open>An array map: a key below the number of slots finds its slot, any other key NULL.\<close>

definition bpf_array_lookup_elem :: "'v list \<Rightarrow> u32 \<Rightarrow> 'v option" where
  "bpf_array_lookup_elem m key = (if unat key < length m then Some (m ! unat key) else None)"

definition lookup_global_state :: "kernel \<Rightarrow> u32 \<Rightarrow> SampleState option" where
  "lookup_global_state k key = (if key = 0 then Some (global_state k) else None)"

text \<open>
  Modelled from the spec: \<open>rbperf_read\<close> and \<open>rbperf_read_str\<close> are macros of the absent
  header over the kernel's user-memory readers. A read that faults leaves its
  destination zeroed. A string read copies the characters up to the first NUL, at most
  \<open>len - 1\<close> of them, and closes them with a NUL; the rest of the buffer keeps what it
  held.
\<close>

definition rbperf_read :: "(u64 \<rightharpoonup> 'a::zero) \<Rightarrow> u64 \<Rightarrow> 'a" where
  "rbperf_read m addr = (case m addr of None \<Rightarrow> 0 | Some v \<Rightarrow> v)"

definition probe_read_str :: "string \<Rightarrow> nat \<Rightarrow> string \<Rightarrow> string" where
  "probe_read_str buffer len s =
     (if len = 0 then buffer
      else let copied = take (len - 1) (takeWhile (\<lambda>ch. ch \<noteq> NUL) s) @ [NUL]
           in copied @ drop (length copied) buffer)"

definition rbperf_read_str :: "env \<Rightarrow> string \<Rightarrow> nat \<Rightarrow> u64 \<Rightarrow> string" where
  "rbperf_read_str e buffer len addr =
     (case mem_str e addr of
        None \<Rightarrow> replicate len NUL @ drop len buffer
      | Some s \<Rightarrow> probe_read_str buffer len s)"

definition bpf_get_prandom_u32 :: "env \<Rightarrow> kernel \<Rightarrow> u32 \<times> kernel" where
  "bpf_get_prandom_u32 e k = (prandom e (prandom_calls k), k\<lparr>prandom_calls := Suc (prandom_calls k)\<rparr>)"

text \<open>Both output helpers hand the record to the channel \<open>events\<close>.\<close>

definition bpf_ringbuf_output :: "kernel \<Rightarrow> RubyStack \<Rightarrow> kernel" where
  "bpf_ringbuf_output k r = k\<lparr>events := events k @ [r]\<rparr>"

definition bpf_perf_event_output :: "kernel \<Rightarrow> RubyStack \<Rightarrow> kernel" where
  "bpf_perf_event_output k r = k\<lparr>events := events k @ [r]\<rparr>"

subsection \<open>The frame interner\<close>

definition find_or_insert_frame :: "env \<Rightarrow> kernel \<Rightarrow> RubyFrame \<Rightarrow> u32 \<times> kernel" where
  "find_or_insert_frame e k frame =
     (case bpf_map_lookup_elem (stack_to_id k) frame of
        Some found_id \<Rightarrow> (found_id, k)
      | None \<Rightarrow>
          let (random, k1) = bpf_get_prandom_u32 e k;
              k2 = k1\<lparr>stack_to_id := bpf_map_update_elem (stack_to_id k1) frame random\<rparr>;
              k3 = k2\<lparr>id_to_stack := bpf_map_update_elem (id_to_stack k2) random frame\<rparr>
          in (random, k3))"

subsection \<open>The frame decoder\<close>

definition read_ruby_string :: "rbperf_consts \<Rightarrow> env \<Rightarrow> u64 \<Rightarrow> string \<Rightarrow> nat \<Rightarrow> string" where
  "read_ruby_string c e label buffer buffer_len =
     (let flags = rbperf_read (mem_u64 e) (label + 0 + 0)
      in if STRING_ON_HEAP c flags
         then let char_ptr = rbperf_read (mem_u64 e) (label + as_offset c + 8)
              in rbperf_read_str e buffer buffer_len char_ptr
         else rbperf_read_str e buffer buffer_len (label + as_offset c))"

definition read_ruby_lineno :: "rbperf_consts \<Rightarrow> env \<Rightarrow> u64 \<Rightarrow> u64 \<Rightarrow> RubyVersionOffsets \<Rightarrow> u32" where
  "read_ruby_lineno c e pc body version_offsets =
     (if pc = 0 then 0
      else
        let pos_addr = rbperf_read (mem_u64 e) (pc - body + iseq_encoded_offset c);
            pos = rbperf_read (mem_u64 e) pos_addr;
            pos = (if pos \<noteq> 0 then pos - rb_value_sizeof c else pos);
            line_info_size = rbperf_read (mem_u32 e)
                               (body + scast (line_info_size_offset version_offsets))
        in if line_info_size = 0 then line_info_size
           else
             let info_table = rbperf_read (mem_u64 e)
                                (body + scast (line_info_table_offset version_offsets))
             in rbperf_read (mem_u32 e)
                  (info_table + ucast ((line_info_size - 1) * 0x8)
                     + scast (lineno_offset version_offsets)))"

datatype path_kind = Path_at u64 | Wrong_type

definition read_frame ::
  "rbperf_consts \<Rightarrow> env \<Rightarrow> u64 \<Rightarrow> u64 \<Rightarrow> RubyFrame \<Rightarrow> RubyVersionOffsets \<Rightarrow> RubyFrame" where
  "read_frame c e pc body current_frame version_offsets =
     (let label_offset = label_offset version_offsets;
          path_addr = rbperf_read (mem_u64 e) (body + ruby_location_offset c + path_offset c);
          flags = rbperf_read (mem_u64 e) path_addr;
          found =
            (if flags AND RUBY_T_MASK c = RUBY_T_STRING c then Path_at path_addr
             else if flags AND RUBY_T_MASK c = RUBY_T_ARRAY c then
               (if path_flavour version_offsets = 1
                then let path_addr = path_addr + 0x10 + PATH_TYPE_OFFSET c
                     in Path_at (rbperf_read (mem_u64 e) path_addr)
                else Path_at path_addr)
             else Wrong_type)
      in case found of
           Wrong_type \<Rightarrow> current_frame
         | Path_at a \<Rightarrow>
             let path = a;
                 label = rbperf_read (mem_u64 e)
                           (body + ruby_location_offset c + scast label_offset);
                 f1 = current_frame\<lparr>path :=
                        read_ruby_string c e path (RubyFrame.path current_frame) (PATH_MAXLEN c)\<rparr>;
                 f2 = f1\<lparr>lineno := read_ruby_lineno c e pc body version_offsets\<rparr>;
                 f3 = f2\<lparr>method_name :=
                        read_ruby_string c e label (method_name f2) (METHOD_MAXLEN c)\<rparr>
             in f3)"

subsection \<open>The continuation program \<open>walk_ruby_stack\<close>\<close>

text \<open>
  A program ends by returning, or by a tail call that jumps to the continuation and does
  not come back.
\<close>

datatype action = Exit | Tail_call

text \<open>
  One entry of the walk's log for each control frame that passes the termination check:
  where it was read, the frame record after the decode step, and the slot and id when
  the id was appended to the sample.
\<close>

record frame_event =
  fe_cfp :: u64
  fe_iseq_addr :: u64
  fe_frame :: RubyFrame
  fe_slot :: "(nat \<times> u32) option"

definition zero_frame :: "rbperf_consts \<Rightarrow> RubyFrame" where
  "zero_frame c =
     \<lparr>method_name = replicate (METHOD_MAXLEN c) NUL, path = replicate (PATH_MAXLEN c) NUL,
      lineno = 0\<rparr>"

text \<open>
  Lines 228 to 236: the native marker when \<open>iseq_addr\<close> is NULL, the frame decoder
  otherwise. The helper writes the \<open>sizeof NATIVE_METHOD_NAME\<close> bytes of the literal
  into \<open>method_name\<close>. Both work on the local \<open>current_frame\<close> as the previous
  iteration left it.
\<close>

definition decode_control_frame ::
  "rbperf_consts \<Rightarrow> env \<Rightarrow> RubyVersionOffsets \<Rightarrow> RubyFrame \<Rightarrow> u64 \<Rightarrow> u64 \<Rightarrow> RubyFrame" where
  "decode_control_frame c e version_offsets current_frame iseq_addr pc =
     (if iseq_addr = 0
      then current_frame\<lparr>method_name :=
             probe_read_str (method_name current_frame)
               (length NATIVE_METHOD_NAME + 1) NATIVE_METHOD_NAME\<rparr>
      else let body = rbperf_read (mem_u64 e) (iseq_addr + body_offset c)
           in read_frame c e pc body current_frame version_offsets)"

text \<open>The body of the loop after the termination check (lines 228 to 242).\<close>

definition walk_frame ::
  "rbperf_consts \<Rightarrow> env \<Rightarrow> RubyVersionOffsets \<Rightarrow> kernel \<Rightarrow> RubyFrame \<Rightarrow> u64 \<Rightarrow> u64 \<Rightarrow> u64
     \<Rightarrow> kernel \<times> RubyFrame \<times> frame_event" where
  "walk_frame c e version_offsets k current_frame cfp0 iseq_addr pc =
     (let frame = decode_control_frame c e version_offsets current_frame iseq_addr pc;
          actual_index = size_stack (stack (global_state k))
      in if 0 \<le> actual_index \<and> actual_index < int (MAX_STACK c)
         then let (new_id, k1) = find_or_insert_frame e k frame;
                  state = global_state k1;
                  st = stack state;
                  st1 = st\<lparr>frames := (frames st)[nat actual_index := new_id]\<rparr>;
                  st2 = st1\<lparr>size_stack := size_stack st1 + 1\<rparr>
              in (k1\<lparr>global_state := state\<lparr>stack := st2\<rparr>\<rparr>, frame,
                  \<lparr>fe_cfp = cfp0, fe_iseq_addr = iseq_addr, fe_frame = frame,
                   fe_slot = Some (nat actual_index, new_id)\<rparr>)
         else (k, frame,
               \<lparr>fe_cfp = cfp0, fe_iseq_addr = iseq_addr, fe_frame = frame, fe_slot = None\<rparr>))"

text \<open>
  The loop of lines 218 to 245, by the number of iterations left. It returns the maps,
  the local \<open>current_frame\<close>, the local \<open>cfp\<close> and the log.
\<close>

fun walk_loop ::
  "rbperf_consts \<Rightarrow> env \<Rightarrow> RubyVersionOffsets \<Rightarrow> u64 \<Rightarrow> nat \<Rightarrow> kernel \<Rightarrow> RubyFrame \<Rightarrow> u64
     \<Rightarrow> kernel \<times> RubyFrame \<times> u64 \<times> frame_event list" where
  "walk_loop c e version_offsets frame_sizeof 0 k current_frame cfp0 =
     (k, current_frame, cfp0, [])"
| "walk_loop c e version_offsets frame_sizeof (Suc n) k current_frame cfp0 =
     (let iseq_addr = rbperf_read (mem_u64 e) (cfp0 + iseq_offset c);
          pc_addr = rbperf_read (mem_u64 e) (cfp0 + 0);
          pc = rbperf_read (mem_u64 e) pc_addr
      in if cfp0 > base_stack (global_state k) then (k, current_frame, cfp0, [])
         else
           let (k1, frame, ev) = walk_frame c e version_offsets k current_frame cfp0 iseq_addr pc;
               (k2, frame2, cfp2, log) =
                 walk_loop c e version_offsets frame_sizeof n k1 frame
                   (cfp0 + frame_sizeof)
           in (k2, frame2, cfp2, ev # log))"

definition publish :: "rbperf_consts \<Rightarrow> kernel \<Rightarrow> kernel" where
  "publish c k =
     (if use_ringbuf c then bpf_ringbuf_output k (stack (global_state k))
      else bpf_perf_event_output k (stack (global_state k)))"

definition walk_ruby_stack ::
  "rbperf_consts \<Rightarrow> env \<Rightarrow> kernel \<Rightarrow> action \<times> kernel \<times> frame_event list" where
  "walk_ruby_stack c e k =
     (case lookup_global_state k 0 of
        None \<Rightarrow> (Exit, k, [])
      | Some state \<Rightarrow>
        (case bpf_array_lookup_elem (version_specific_offsets k) (sample_rb_version state) of
           None \<Rightarrow> (Exit, k, [])
         | Some version_offsets \<Rightarrow>
             let current_frame = zero_frame c;
                 base_stack0 = base_stack state;
                 cfp0 = cfp state;
                 k1 = k\<lparr>global_state := state\<lparr>ruby_stack_program_count :=
                        ruby_stack_program_count state + 1\<rparr>\<rparr>;
                 control_frame_t_sizeof = scast (control_frame_t_sizeof version_offsets);
                 (k2, frame, cfp1, log) =
                   walk_loop c e version_offsets control_frame_t_sizeof
                     (MAX_STACKS_PER_PROGRAM c) k1 current_frame cfp0;
                 k3 = k2\<lparr>global_state := (global_state k2)\<lparr>cfp := cfp1\<rparr>\<rparr>;
                 k4 = k3\<lparr>global_state := (global_state k3)\<lparr>base_stack := base_stack0\<rparr>\<rparr>
             in if cfp1 \<le> base_stack0
                   \<and> ruby_stack_program_count (global_state k4) < BPF_PROGRAMS_COUNT c
                   \<and> continuation_loaded e
                then (Tail_call, k4, log)
                else
                  let st = stack (global_state k4);
                      st1 = st\<lparr>stack_status :=
                              (if cfp1 > base_stack (global_state k4)
                               then STACK_COMPLETE else STACK_INCOMPLETE)\<rparr>;
                      k5 = k4\<lparr>global_state := (global_state k4)\<lparr>stack := st1\<rparr>\<rparr>
                  in (Exit, publish c k5, log)))"

subsection \<open>The entry program \<open>on_event\<close>\<close>

definition read_syscall_id :: "env \<Rightarrow> c_int" where
  "read_syscall_id e = (case ctx_syscall_nr e of None \<Rightarrow> 0 | Some v \<Rightarrow> v)"

text \<open>Lines 309 to 374: the reads of the interpreter state and the priming of the sample.\<close>

definition prime_sample ::
  "rbperf_consts \<Rightarrow> env \<Rightarrow> kernel \<Rightarrow> u32 \<Rightarrow> ProcessData \<Rightarrow> action \<times> kernel" where
  "prime_sample c e k pid0 process_data =
     (case bpf_array_lookup_elem (version_specific_offsets k) (rb_version process_data) of
        None \<Rightarrow> (Exit, k)
      | Some version_offsets \<Rightarrow>
          let ruby_current_thread_addr =
                rbperf_read (mem_u64 e) (rb_frame_addr process_data);
              main_thread_addr =
                rbperf_read (mem_u64 e)
                  (ruby_current_thread_addr + scast (main_thread_offset version_offsets));
              ec_addr =
                rbperf_read (mem_u64 e) (main_thread_addr + scast (ec_offset version_offsets));
              control_frame_t_sizeof = control_frame_t_sizeof version_offsets;
              thread_stack_content =
                rbperf_read (mem_u64 e) (ec_addr + scast (vm_offset version_offsets));
              thread_stack_size =
                rbperf_read (mem_u64 e) (ec_addr + scast (vm_size_offset version_offsets));
              base_stack0 =
                thread_stack_content + rb_value_sizeof c * thread_stack_size
                  - scast (2 * control_frame_t_sizeof);
              cfp0 = rbperf_read (mem_u64 e) (ec_addr + scast (cfp_offset version_offsets))
          in (case lookup_global_state k 0 of
               None \<Rightarrow> (Exit, k)
             | Some state \<Rightarrow>
                 let st = stack state;
                     st = st\<lparr>timestamp := ktime_ns e\<rparr>;
                     st = st\<lparr>pid := pid0\<rparr>;
                     st = st\<lparr>cpu := smp_processor_id e\<rparr>;
                     st = st\<lparr>syscall_id :=
                            (if event_type c = RBPERF_EVENT_SYSCALL then read_syscall_id e
                             else 0)\<rparr>;
                     st = st\<lparr>size_stack := 0\<rparr>;
                     st = st\<lparr>expected_size :=
                            (base_stack0 - cfp0) div scast control_frame_t_sizeof\<rparr>;
                     st = st\<lparr>comm := current_comm e\<rparr>;
                     st = st\<lparr>stack_status := STACK_COMPLETE\<rparr>;
                     state = state\<lparr>stack := st\<rparr>;
                     state = state\<lparr>base_stack := base_stack0\<rparr>;
                     state = state\<lparr>cfp :=
                               cfp0 + scast (RubyVersionOffsets.control_frame_t_sizeof
                                               version_offsets)\<rparr>;
                     state = state\<lparr>ruby_stack_program_count := 0\<rparr>;
                     state = state\<lparr>sample_rb_version := rb_version process_data\<rparr>;
                     k1 = k\<lparr>global_state := state\<rparr>
                 in if continuation_loaded e then (Tail_call, k1) else (Exit, k1)))"

text \<open>
  Lines 293 to 307: the check of the start time. \<open>None\<close> is the early return; otherwise
  the process record as the check leaves it.
\<close>

definition pid_race_detector :: "rbperf_consts \<Rightarrow> env \<Rightarrow> ProcessData \<Rightarrow> ProcessData option" where
  "pid_race_detector c e process_data =
     (if enable_pid_race_detector c then
        let process_start_time = (case task_start_time e of None \<Rightarrow> 0 | Some t \<Rightarrow> t)
        in if start_time process_data = 0
           then Some (process_data\<lparr>start_time := process_start_time\<rparr>)
           else if start_time process_data \<noteq> process_start_time then None
           else Some process_data
      else Some process_data)"

definition on_event :: "rbperf_consts \<Rightarrow> env \<Rightarrow> kernel \<Rightarrow> action \<times> kernel" where
  "on_event c e k =
     (let pid_tgid = current_pid_tgid e;
          pid0 = (ucast (drop_bit 32 pid_tgid) :: u32)
      in case bpf_map_lookup_elem (pid_to_rb_thread k) pid0 of
           None \<Rightarrow> (Exit, k)
         | Some process_data \<Rightarrow>
             if rb_frame_addr process_data \<noteq> 0 then
               if current_task e = 0 then (Exit, k)
               else
                 (case pid_race_detector c e process_data of
                    None \<Rightarrow> (Exit, k)
                  | Some process_data1 \<Rightarrow>
                      let k1 = k\<lparr>pid_to_rb_thread :=
                                  AList.update pid0 process_data1 (pid_to_rb_thread k)\<rparr>
                      in prime_sample c e k1 pid0 process_data1)
             else (Exit, k))"

subsection \<open>One sampled event: the entry program and the chain of tail calls\<close>

record invocation =
  inv_action :: action
  inv_kernel :: kernel
  inv_log :: "frame_event list"

function walk_chain :: "rbperf_consts \<Rightarrow> env \<Rightarrow> kernel \<Rightarrow> invocation list" where
  "walk_chain c e k =
     (let r = walk_ruby_stack c e k;
          this = \<lparr>inv_action = fst r, inv_kernel = fst (snd r), inv_log = snd (snd r)\<rparr>
      in if fst r = Tail_call then this # walk_chain c e (fst (snd r)) else [this])"
  by pat_completeness auto

text \<open>
  One sampled event: \<open>on_event\<close>, then the continuation as long as it tail-calls itself.
  The result is the kernel state when the last program has returned and the list of the
  walker's invocations, in order.
\<close>

definition handle_event :: "rbperf_consts \<Rightarrow> env \<Rightarrow> kernel \<Rightarrow> kernel \<times> invocation list" where
  "handle_event c e k =
     (case on_event c e k of
        (Tail_call, k1) \<Rightarrow> (let invs = walk_chain c e k1 in (inv_kernel (last invs), invs))
      | (Exit, k1) \<Rightarrow> (k1, []))"

text \<open>The records that an event put on the output channel.\<close>

definition published :: "kernel \<Rightarrow> kernel \<Rightarrow> RubyStack list" where
  "published k k' = drop (length (events k)) (events k')"

subsection \<open>Predicates of the properties\<close>

text \<open>
  The walker has seen the top of the stack within the budget: one of the first
  \<open>BPF_PROGRAMS_COUNT\<close> invocations has left \<open>cfp\<close> above \<open>base_stack\<close>.
\<close>

definition observed_top :: "rbperf_consts \<Rightarrow> invocation list \<Rightarrow> bool" where
  "observed_top c invs =
     list_ex (\<lambda>inv. base_stack (global_state (inv_kernel inv))
                       < cfp (global_state (inv_kernel inv)))
       (take (nat (BPF_PROGRAMS_COUNT c)) invs)"

text \<open>
  The aborts of the entry program that the spec lists: the process is not registered, its
  thread pointer is zero, the start time recorded for it is not the task's, or there are
  no offsets for its version.
\<close>

definition entry_aborts :: "rbperf_consts \<Rightarrow> env \<Rightarrow> kernel \<Rightarrow> bool" where
  "entry_aborts c e k =
     (case bpf_map_lookup_elem (pid_to_rb_thread k) (ucast (drop_bit 32 (current_pid_tgid e))) of
        None \<Rightarrow> True
      | Some process_data \<Rightarrow>
          rb_frame_addr process_data = 0
          \<or> (enable_pid_race_detector c \<and> start_time process_data \<noteq> 0
              \<and> start_time process_data \<noteq> (case task_start_time e of None \<Rightarrow> 0 | Some t \<Rightarrow> t))
          \<or> bpf_array_lookup_elem (version_specific_offsets k) (rb_version process_data) = None)"

subsection \<open>A sample event\<close>

text \<open>
  A small configuration for concrete runs: two ids per sample, two frames per invocation,
  three invocations. The registered process 42 has an interpreter stack whose top two
  frames are the sentinels; three control frames lie below them, none of which has an
  instruction sequence.
\<close>

definition ex_consts :: rbperf_consts where
  "ex_consts =
     \<lparr>MAX_STACK = 2, MAX_STACKS_PER_PROGRAM = Suc (Suc 0), BPF_PROGRAMS_COUNT = 3,
      METHOD_MAXLEN = 16, PATH_MAXLEN = 8,
      iseq_offset = 16, body_offset = 16, ruby_location_offset = 64, path_offset = 0,
      as_offset = 16, PATH_TYPE_OFFSET = 0, rb_value_sizeof = 8, iseq_encoded_offset = 0,
      RUBY_T_MASK = 0x1f, RUBY_T_STRING = 5, RUBY_T_ARRAY = 7,
      STRING_ON_HEAP = (\<lambda>flags. flags AND 0x2000 \<noteq> 0),
      use_ringbuf = False, enable_pid_race_detector = True,
      event_type = RBPERF_EVENT_SYSCALL_UNKNOWN\<rparr>"

definition ex_offsets :: RubyVersionOffsets where
  "ex_offsets =
     \<lparr>vm_offset = 0, vm_size_offset = 8, control_frame_t_sizeof = 56, cfp_offset = 16,
      label_offset = 8, path_flavour = 1, line_info_size_offset = 32,
      line_info_table_offset = 40, lineno_offset = 0, main_thread_offset = 0,
      ec_offset = 32\<rparr>"

definition ex_env :: env where
  "ex_env =
     \<lparr>mem_u64 = [0x1000 \<mapsto> 0x2000, 0x2000 \<mapsto> 0x3000, 0x3020 \<mapsto> 0x4000,
                 0x4000 \<mapsto> 0x10000, 0x4008 \<mapsto> 0x100, 0x4010 \<mapsto> 0x106e8],
      mem_u32 = Map.empty, mem_str = Map.empty,
      current_pid_tgid = 0x0000002A00000007, current_task = 0xffff0000,
      task_start_time = Some 1234, ktime_ns = 99, smp_processor_id = 1,
      current_comm = ''ruby'', ctx_syscall_nr = None,
      prandom = (\<lambda>n. 1000 + of_nat n), continuation_loaded = True\<rparr>"

definition ex_state :: SampleState where
  "ex_state =
     \<lparr>stack = \<lparr>timestamp = 0, pid = 0, cpu = 0, syscall_id = 0, comm = [],
               stack_status = STACK_COMPLETE, size_stack = 0, expected_size = 0,
               frames = [0, 0]\<rparr>,
      base_stack = 0, cfp = 0, ruby_stack_program_count = 0, sample_rb_version = 0\<rparr>"

definition ex_kernel :: kernel where
  "ex_kernel =
     \<lparr>pid_to_rb_thread = [(42, \<lparr>rb_frame_addr = 0x1000, rb_version = 0, start_time = 0\<rparr>)],
      id_to_stack = [], stack_to_id = [], version_specific_offsets = [ex_offsets],
      global_state = ex_state, events = [], prandom_calls = 0\<rparr>"

text \<open>The states the sample event goes through, and the logs of its two invocations.\<close>

definition ex_native :: RubyFrame where
  "ex_native =
     \<lparr>method_name = ''<native code>'' @ [NUL, NUL, NUL], path = replicate 8 NUL, lineno = 0\<rparr>"

definition ex_primed :: kernel where
  "ex_primed =
     ex_kernel\<lparr>pid_to_rb_thread :=
                  [(42, \<lparr>rb_frame_addr = 0x1000, rb_version = 0, start_time = 1234\<rparr>)],
               global_state :=
                 \<lparr>stack = \<lparr>timestamp = 99, pid = 42, cpu = 1, syscall_id = 0, comm = ''ruby'',
                            stack_status = STACK_COMPLETE, size_stack = 0, expected_size = 3,
                            frames = [0, 0]\<rparr>,
                  base_stack = 0x10790, cfp = 0x10720, ruby_stack_program_count = 0,
                  sample_rb_version = 0\<rparr>\<rparr>"

definition ex_mid :: kernel where
  "ex_mid =
     ex_primed\<lparr>id_to_stack := [(1000, ex_native)], stack_to_id := [(ex_native, 1000)],
               prandom_calls := 1,
               global_state :=
                 \<lparr>stack = \<lparr>timestamp = 99, pid = 42, cpu = 1, syscall_id = 0, comm = ''ruby'',
                            stack_status = STACK_COMPLETE, size_stack = 2, expected_size = 3,
                            frames = [1000, 1000]\<rparr>,
                  base_stack = 0x10790, cfp = 0x10790, ruby_stack_program_count = 1,
                  sample_rb_version = 0\<rparr>\<rparr>"

definition ex_record :: RubyStack where
  "ex_record =
     \<lparr>timestamp = 99, pid = 42, cpu = 1, syscall_id = 0, comm = ''ruby'',
      stack_status = STACK_COMPLETE, size_stack = 2, expected_size = 3,
      frames = [1000, 1000]\<rparr>"

definition ex_final :: kernel where
  "ex_final =
     ex_mid\<lparr>global_state :=
               \<lparr>stack = ex_record, base_stack = 0x10790, cfp = 0x107c8,
                ruby_stack_program_count = 2, sample_rb_version = 0\<rparr>,
            events := [ex_record]\<rparr>"

definition ex_log1 :: "frame_event list" where
  "ex_log1 =
     [\<lparr>fe_cfp = 0x10720, fe_iseq_addr = 0, fe_frame = ex_native, fe_slot = Some (0, 1000)\<rparr>,
      \<lparr>fe_cfp = 0x10758, fe_iseq_addr = 0, fe_frame = ex_native, fe_slot = Some (1, 1000)\<rparr>]"

definition ex_log2 :: "frame_event list" where
  "ex_log2 =
     [\<lparr>fe_cfp = 0x10790, fe_iseq_addr = 0, fe_frame = ex_native, fe_slot = None\<rparr>]"

definition ex_unregistered :: kernel where
  "ex_unregistered = ex_kernel\<lparr>pid_to_rb_thread := []\<rparr>"

definition ex_short_budget :: rbperf_consts where
  "ex_short_budget = ex_consts\<lparr>BPF_PROGRAMS_COUNT := 1\<rparr>"

definition ex_raced :: kernel where
  "ex_raced =
     ex_kernel\<lparr>pid_to_rb_thread :=
       [(42, \<lparr>rb_frame_addr = 0x1000, rb_version = 0, start_time = 77\<rparr>)]\<rparr>"

text \<open>
  A second event: room for four ids and three frames per invocation; a stack of three
  control frames. The first has an instruction sequence with the path \<open>a.rb\<close>, the label
  \<open>block in initialize\<close> and the line 7; the second has an instruction sequence whose
  path object is neither a string nor an array; the third has no instruction sequence.
\<close>

definition ex2_consts :: rbperf_consts where
  "ex2_consts = ex_consts\<lparr>MAX_STACK := 4, MAX_STACKS_PER_PROGRAM := Suc (Suc (Suc 0))\<rparr>"

definition ex2_env :: env where
  "ex2_env =
     ex_env\<lparr>mem_u64 :=
               [0x1000 \<mapsto> 0x2000, 0x2000 \<mapsto> 0x3000, 0x3020 \<mapsto> 0x4000,
                0x4000 \<mapsto> 0x10000, 0x4008 \<mapsto> 0x100, 0x4010 \<mapsto> 0x106e8,
                0x10730 \<mapsto> 0x5000, 0x10720 \<mapsto> 0x5800, 0x5800 \<mapsto> 0x6008,
                0x5010 \<mapsto> 0x6000, 0x6040 \<mapsto> 0x7000, 0x7000 \<mapsto> 5,
                0x6048 \<mapsto> 0x7100, 0x7100 \<mapsto> 0x2005, 0x7118 \<mapsto> 0x7300,
                0x6028 \<mapsto> 0x7200,
                0x10768 \<mapsto> 0x5100, 0x5110 \<mapsto> 0x6100, 0x6140 \<mapsto> 0x7400,
                0x7400 \<mapsto> 8],
             mem_u32 := [0x6020 \<mapsto> 1, 0x7200 \<mapsto> 7],
             mem_str := [0x7010 \<mapsto> ''a.rb'', 0x7300 \<mapsto> ''block in initialize'']\<rparr>"

definition ex2_kernel :: kernel where
  "ex2_kernel =
     ex_kernel\<lparr>global_state :=
       ex_state\<lparr>stack := (stack ex_state)\<lparr>frames := [0, 0, 0, 0]\<rparr>\<rparr>\<rparr>"

definition ex2_frame_a :: RubyFrame where
  "ex2_frame_a =
     \<lparr>method_name = ''block in initia'' @ [NUL], path = ''a.rb'' @ [NUL, NUL, NUL, NUL],
      lineno = 7\<rparr>"

definition ex2_frame_n :: RubyFrame where
  "ex2_frame_n =
     \<lparr>method_name = ''<native code>'' @ [NUL, CHR ''a'', NUL],
      path = ''a.rb'' @ [NUL, NUL, NUL, NUL], lineno = 7\<rparr>"

definition ex2_log :: "frame_event list" where
  "ex2_log =
     [\<lparr>fe_cfp = 0x10720, fe_iseq_addr = 0x5000, fe_frame = ex2_frame_a, fe_slot = Some (0, 1000)\<rparr>,
      \<lparr>fe_cfp = 0x10758, fe_iseq_addr = 0x5100, fe_frame = ex2_frame_a, fe_slot = Some (1, 1000)\<rparr>,
      \<lparr>fe_cfp = 0x10790, fe_iseq_addr = 0, fe_frame = ex2_frame_n, fe_slot = Some (2, 1001)\<rparr>]"

definition ex2_primed :: kernel where
  "ex2_primed =
     ex2_kernel\<lparr>pid_to_rb_thread :=
                   [(42, \<lparr>rb_frame_addr = 0x1000, rb_version = 0, start_time = 1234\<rparr>)],
                global_state :=
                  \<lparr>stack = \<lparr>timestamp = 99, pid = 42, cpu = 1, syscall_id = 0, comm = ''ruby'',
                             stack_status = STACK_COMPLETE, size_stack = 0, expected_size = 3,
                             frames = [0, 0, 0, 0]\<rparr>,
                   base_stack = 0x10790, cfp = 0x10720, ruby_stack_program_count = 0,
                   sample_rb_version = 0\<rparr>\<rparr>"

definition ex2_record :: RubyStack where
  "ex2_record =
     \<lparr>timestamp = 99, pid = 42, cpu = 1, syscall_id = 0, comm = ''ruby'',
      stack_status = STACK_COMPLETE, size_stack = 3, expected_size = 3,
      frames = [1000, 1000, 1001, 0]\<rparr>"

definition ex2_final :: kernel where
  "ex2_final =
     ex2_primed\<lparr>id_to_stack := [(1000, ex2_frame_a), (1001, ex2_frame_n)],
                stack_to_id := [(ex2_frame_a, 1000), (ex2_frame_n, 1001)],
                prandom_calls := 2,
                global_state :=
                  \<lparr>stack = ex2_record, base_stack = 0x10790, cfp = 0x107c8,
                   ruby_stack_program_count = 1, sample_rb_version = 0\<rparr>,
                events := [ex2_record]\<rparr>"

text \<open>
  The invariant of a walk without wrap-around: the pointer is \<open>j\<close> frames above the
  first walked frame, the sample holds \<open>min j MAX_STACK\<close> ids, and the pointer is at most
  one frame above \<open>base_stack\<close>.
\<close>

definition walk_inv :: "nat \<Rightarrow> u64 \<Rightarrow> u64 \<Rightarrow> u64 \<Rightarrow> int \<Rightarrow> u64 \<Rightarrow> bool" where
  "walk_inv max_stack start fs base sz p \<longleftrightarrow>
     (\<exists>j. unat p = unat start + j * unat fs \<and> sz = int (min j max_stack)
          \<and> unat p \<le> unat base + unat fs)"

definition ex3_env :: env where
  "ex3_env =
     ex_env\<lparr>mem_u64 :=
       [0x1000 \<mapsto> 0x2000, 0x2000 \<mapsto> 0x3000, 0x3020 \<mapsto> 0x4000,
        0x4000 \<mapsto> 0x10000, 0x4008 \<mapsto> 0x100, 0x4010 \<mapsto> 0x107c8]\<rparr>"

definition ex3_record :: RubyStack where
  "ex3_record =
     \<lparr>timestamp = 99, pid = 42, cpu = 1, syscall_id = 0, comm = ''ruby'',
      stack_status = STACK_COMPLETE, size_stack = 0,
      expected_size = 0xFFFFFFFFFFFFFFC8 div 56, frames = [0, 0]\<rparr>"

text \<open>
  The two frame tables agree: an id that \<open>stack_to_id\<close> gives for a frame leads back to
  that frame in \<open>id_to_stack\<close>.
\<close>

definition tables_agree :: "kernel \<Rightarrow> bool" where
  "tables_agree k \<longleftrightarrow>
     (\<forall>f i. map_of (stack_to_id k) f = Some i \<longrightarrow> map_of (id_to_stack k) i = Some f)"

text \<open>\<open>id_to_stack\<close> only grows: what an id resolves to, it keeps resolving to.\<close>

definition ids_kept :: "kernel \<Rightarrow> kernel \<Rightarrow> bool" where
  "ids_kept k k' \<longleftrightarrow>
     (\<forall>i f. map_of (id_to_stack k) i = Some f \<longrightarrow> map_of (id_to_stack k') i = Some f)"

text \<open>
  The invariant of interning during one sample, which starts with \<open>p0\<close> draws made and
  \<open>l0\<close> entries in \<open>id_to_stack\<close>: the tables agree, there are at most as many new draws
  and new entries as ids in the sample, and the draws to come are not yet ids.
\<close>

definition intern_inv :: "rbperf_consts \<Rightarrow> env \<Rightarrow> nat \<Rightarrow> nat \<Rightarrow> kernel \<Rightarrow> bool" where
  "intern_inv c e p0 l0 k \<longleftrightarrow>
     tables_agree k
     \<and> p0 \<le> prandom_calls k
     \<and> int (prandom_calls k) \<le> int p0 + size_stack (stack (global_state k))
     \<and> length (id_to_stack k) + p0 \<le> l0 + prandom_calls k
     \<and> (\<forall>n. prandom_calls k \<le> n \<and> n < p0 + MAX_STACK c \<longrightarrow>
            map_of (id_to_stack k) (prandom e n) = None)"

text \<open>
  A log entry is resolved in a state: the id it appended leads to its frame in
  \<open>id_to_stack\<close>, and stands at its slot of the sample.
\<close>

definition resolves :: "kernel \<Rightarrow> frame_event \<Rightarrow> bool" where
  "resolves k ev =
     (case fe_slot ev of
        None \<Rightarrow> True
      | Some (slot, i) \<Rightarrow>
          map_of (id_to_stack k) i = Some (fe_frame ev)
          \<and> int slot < size_stack (stack (global_state k))
          \<and> frames (stack (global_state k)) ! slot = i)"

text \<open>What is in the sample and in \<open>id_to_stack\<close> stays there.\<close>

definition sample_kept :: "kernel \<Rightarrow> kernel \<Rightarrow> bool" where
  "sample_kept k k' \<longleftrightarrow>
     ids_kept k k'
     \<and> size_stack (stack (global_state k)) \<le> size_stack (stack (global_state k'))
     \<and> length (frames (stack (global_state k'))) = length (frames (stack (global_state k)))
     \<and> (\<forall>s. int s < size_stack (stack (global_state k)) \<longrightarrow>
            frames (stack (global_state k')) ! s = frames (stack (global_state k)) ! s)"

text \<open>The second event with a generator that draws the same id twice.\<close>

definition ex4_env :: env where
  "ex4_env = ex2_env\<lparr>prandom := (\<lambda>n. 1000)\<rparr>"

definition ex4_log :: "frame_event list" where
  "ex4_log =
     [\<lparr>fe_cfp = 0x10720, fe_iseq_addr = 0x5000, fe_frame = ex2_frame_a, fe_slot = Some (0, 1000)\<rparr>,
      \<lparr>fe_cfp = 0x10758, fe_iseq_addr = 0x5100, fe_frame = ex2_frame_a, fe_slot = Some (1, 1000)\<rparr>,
      \<lparr>fe_cfp = 0x10790, fe_iseq_addr = 0, fe_frame = ex2_frame_n, fe_slot = Some (2, 1000)\<rparr>]"

definition ex4_record :: RubyStack where
  "ex4_record = ex2_record\<lparr>frames := [1000, 1000, 1000, 0]\<rparr>"

definition ex4_final :: kernel where
  "ex4_final =
     ex2_primed\<lparr>id_to_stack := [(1000, ex2_frame_n)],
                stack_to_id := [(ex2_frame_a, 1000), (ex2_frame_n, 1000)],
                prandom_calls := 2,
                global_state :=
                  \<lparr>stack = ex4_record, base_stack = 0x10790, cfp = 0x107c8,
                   ruby_stack_program_count = 1, sample_rb_version = 0\<rparr>,
                events := [ex4_record]\<rparr>"

section \<open>Properties\<close>

subsection \<open>What the loop and the interner leave alone\<close>

lemma find_or_insert_frame_keeps:
  assumes "find_or_insert_frame e k f = (i, k')"
  shows "global_state k' = global_state k" "events k' = events k"
    "version_specific_offsets k' = version_specific_offsets k"
    "pid_to_rb_thread k' = pid_to_rb_thread k"
  using assms
  by (auto simp: find_or_insert_frame_def bpf_get_prandom_u32_def Let_def split: option.splits)

lemma walk_frame_keeps:
  assumes "walk_frame c e vo k f p ia pc = (k', f', ev)"
  shows "base_stack (global_state k') = base_stack (global_state k)"
    "cfp (global_state k') = cfp (global_state k)"
    "ruby_stack_program_count (global_state k') = ruby_stack_program_count (global_state k)"
    "sample_rb_version (global_state k') = sample_rb_version (global_state k)"
    "events k' = events k"
    "version_specific_offsets k' = version_specific_offsets k"
    "pid_to_rb_thread k' = pid_to_rb_thread k"
  using assms
  by (auto simp: walk_frame_def Let_def split: if_splits prod.splits dest: find_or_insert_frame_keeps)

lemma walk_loop_keeps:
  assumes "walk_loop c e vo fs n k f p = (k', f', p', log)"
  shows "base_stack (global_state k') = base_stack (global_state k)
    \<and> cfp (global_state k') = cfp (global_state k)
    \<and> ruby_stack_program_count (global_state k') = ruby_stack_program_count (global_state k)
    \<and> sample_rb_version (global_state k') = sample_rb_version (global_state k)
    \<and> events k' = events k
    \<and> version_specific_offsets k' = version_specific_offsets k
    \<and> pid_to_rb_thread k' = pid_to_rb_thread k"
  using assms
proof (induction n arbitrary: k f p k' f' p' log)
  case 0
  then show ?case by simp
next
  case (Suc n)
  show ?case
  proof (cases "p > base_stack (global_state k)")
    case True
    with Suc.prems show ?thesis by simp
  next
    case False
    obtain k1 f1 ev where wf: "walk_frame c e vo k f p
        (rbperf_read (mem_u64 e) (p + iseq_offset c))
        (rbperf_read (mem_u64 e) (rbperf_read (mem_u64 e) (p + 0))) = (k1, f1, ev)"
      by (metis prod_cases3)
    obtain k2 f2 p2 l2 where wl: "walk_loop c e vo fs n k1 f1 (p + fs) = (k2, f2, p2, l2)"
      by (metis prod_cases4)
    from Suc.prems False wf wl have eq: "k' = k2" by (simp add: Let_def)
    from Suc.IH [OF wl] walk_frame_keeps [OF wf] eq show ?thesis by simp
  qed
qed

subsection \<open>One invocation of the walker, by cases\<close>

lemma walk_ruby_stack_cases:
  obtains (no_offsets)
      "bpf_array_lookup_elem (version_specific_offsets k) (sample_rb_version (global_state k)) = None"
      "walk_ruby_stack c e k = (Exit, k, [])"
  | (walked) vo k2 f p1 log where
      "bpf_array_lookup_elem (version_specific_offsets k) (sample_rb_version (global_state k)) = Some vo"
      "walk_loop c e vo (scast (control_frame_t_sizeof vo)) (MAX_STACKS_PER_PROGRAM c)
         (k\<lparr>global_state := (global_state k)\<lparr>ruby_stack_program_count :=
              ruby_stack_program_count (global_state k) + 1\<rparr>\<rparr>)
         (zero_frame c) (cfp (global_state k)) = (k2, f, p1, log)"
      "walk_ruby_stack c e k =
         (if p1 \<le> base_stack (global_state k)
             \<and> ruby_stack_program_count (global_state k) + 1 < BPF_PROGRAMS_COUNT c
             \<and> continuation_loaded e
          then (Tail_call, k2\<lparr>global_state := (global_state k2)\<lparr>cfp := p1\<rparr>\<rparr>, log)
          else (Exit,
                publish c (k2\<lparr>global_state := (global_state k2)
                   \<lparr>cfp := p1,
                    stack := (stack (global_state k2))\<lparr>stack_status :=
                      (if p1 > base_stack (global_state k) then STACK_COMPLETE
                       else STACK_INCOMPLETE)\<rparr>\<rparr>\<rparr>), log))"
proof (cases "bpf_array_lookup_elem (version_specific_offsets k) (sample_rb_version (global_state k))")
  case None
  then show ?thesis
    by (intro no_offsets) (simp_all add: walk_ruby_stack_def lookup_global_state_def)
next
  case (Some vo)
  obtain k2 f p1 log where wl:
    "walk_loop c e vo (scast (control_frame_t_sizeof vo)) (MAX_STACKS_PER_PROGRAM c)
         (k\<lparr>global_state := (global_state k)\<lparr>ruby_stack_program_count :=
              ruby_stack_program_count (global_state k) + 1\<rparr>\<rparr>)
         (zero_frame c) (cfp (global_state k)) = (k2, f, p1, log)"
    by (metis prod_cases4)
  note keep = walk_loop_keeps [OF wl]
  have gs: "(global_state k2)\<lparr>cfp := p1, base_stack := base_stack (global_state k)\<rparr>
      = (global_state k2)\<lparr>cfp := p1\<rparr>"
    using keep by (cases "global_state k2") simp
  show ?thesis
    using Some wl keep
    by (intro walked [of vo k2 f p1 log])
      (simp_all add: walk_ruby_stack_def lookup_global_state_def Let_def gs)
qed

lemma publish_simps:
  "events (publish c k) = events k @ [stack (global_state k)]"
  "global_state (publish c k) = global_state k"
  "version_specific_offsets (publish c k) = version_specific_offsets k"
  "pid_to_rb_thread (publish c k) = pid_to_rb_thread k"
  "id_to_stack (publish c k) = id_to_stack k"
  "stack_to_id (publish c k) = stack_to_id k"
  "prandom_calls (publish c k) = prandom_calls k"
  by (simp_all add: publish_def bpf_ringbuf_output_def bpf_perf_event_output_def)

lemma walk_ruby_stack_Tail_call:
  assumes "walk_ruby_stack c e k = (Tail_call, k', log)"
  shows "(events k' = events k)
    \<and> (version_specific_offsets k' = version_specific_offsets k)
    \<and> (pid_to_rb_thread k' = pid_to_rb_thread k)
    \<and> (sample_rb_version (global_state k') = sample_rb_version (global_state k))
    \<and> (base_stack (global_state k') = base_stack (global_state k))
    \<and> (ruby_stack_program_count (global_state k') = ruby_stack_program_count (global_state k) + 1)
    \<and> (ruby_stack_program_count (global_state k') < BPF_PROGRAMS_COUNT c)
    \<and> (cfp (global_state k') \<le> base_stack (global_state k'))
    \<and> (continuation_loaded e)
    \<and> (bpf_array_lookup_elem (version_specific_offsets k) (sample_rb_version (global_state k)) \<noteq> None)"
proof (cases rule: walk_ruby_stack_cases [of k c e])
  case no_offsets
  with assms show ?thesis by simp
next
  case (walked vo k2 f p1 log2)
  from walked(3) assms(1) walk_loop_keeps [OF walked(2)] walked(1)
  show ?thesis by (auto simp: publish_simps split: if_splits)
qed

lemma walk_ruby_stack_Exit:
  assumes "walk_ruby_stack c e k = (Exit, k', log)"
    and "bpf_array_lookup_elem (version_specific_offsets k) (sample_rb_version (global_state k)) \<noteq> None"
  shows "(events k' = events k @ [stack (global_state k')])
    \<and> (stack_status (stack (global_state k')) =
       (if cfp (global_state k') > base_stack (global_state k') then STACK_COMPLETE
        else STACK_INCOMPLETE))
    \<and> (base_stack (global_state k') = base_stack (global_state k))
    \<and> (ruby_stack_program_count (global_state k') = ruby_stack_program_count (global_state k) + 1)
    \<and> (cfp (global_state k') > base_stack (global_state k')
       \<or> \<not> ruby_stack_program_count (global_state k') < BPF_PROGRAMS_COUNT c
       \<or> \<not> continuation_loaded e)"
proof (cases rule: walk_ruby_stack_cases [of k c e])
  case no_offsets
  with assms show ?thesis by simp
next
  case (walked vo k2 f p1 log2)
  from walked(3) assms(1) walk_loop_keeps [OF walked(2)] walked(1)
  show ?thesis by (auto simp: publish_simps split: if_splits)
qed

subsection \<open>The chain of invocations ends\<close>

termination walk_chain
proof (relation "measure (\<lambda>(c, e, k).
    nat (BPF_PROGRAMS_COUNT c - ruby_stack_program_count (global_state k)))")
  show "wf (measure (\<lambda>(c, e, k).
    nat (BPF_PROGRAMS_COUNT c - ruby_stack_program_count (global_state k))))"
    by simp
next
  fix c e k r this
  assume r: "r = walk_ruby_stack c e k" and t: "fst r = Tail_call"
  then have "walk_ruby_stack c e k = (Tail_call, fst (snd r), snd (snd r))"
    by (metis prod.collapse)
  from walk_ruby_stack_Tail_call [OF this]
  show "((c, e, fst (snd r)), (c, e, k)) \<in> measure (\<lambda>(c, e, k).
    nat (BPF_PROGRAMS_COUNT c - ruby_stack_program_count (global_state k)))"
    by simp
qed

declare walk_chain.simps [simp del]

lemma walk_chain_Tail_call:
  assumes "walk_ruby_stack c e k = (Tail_call, k', log)"
  shows "walk_chain c e k =
    \<lparr>inv_action = Tail_call, inv_kernel = k', inv_log = log\<rparr> # walk_chain c e k'"
  using assms by (subst walk_chain.simps) (simp add: Let_def)

lemma walk_chain_Exit:
  assumes "walk_ruby_stack c e k = (Exit, k', log)"
  shows "walk_chain c e k = [\<lparr>inv_action = Exit, inv_kernel = k', inv_log = log\<rparr>]"
  using assms by (subst walk_chain.simps) (simp add: Let_def)

lemma walk_chain_induct [consumes 0, case_names Exit Tail_call]:
  assumes "\<And>k k' log. walk_ruby_stack c e k = (Exit, k', log) \<Longrightarrow> P k"
    and "\<And>k k' log. walk_ruby_stack c e k = (Tail_call, k', log) \<Longrightarrow> P k' \<Longrightarrow> P k"
  shows "P k"
  using assms
proof (induction c e k rule: walk_chain.induct)
  case (1 c e k)
  obtain a k' log where r: "walk_ruby_stack c e k = (a, k', log)"
    by (metis prod_cases3)
  show ?case
  proof (cases a)
    case Exit
    with r "1.prems"(1) show ?thesis by blast
  next
    case Tail_call
    with r have "P k'" using "1.IH" [of "walk_ruby_stack c e k"] "1.prems" by simp
    with r Tail_call "1.prems"(2) show ?thesis by blast
  qed
qed

lemma walk_chain_not_Nil: "walk_chain c e k \<noteq> []"
  by (subst walk_chain.simps) (simp add: Let_def)

lemma walk_chain_length:
  "int (length (walk_chain c e k))
     \<le> max 1 (BPF_PROGRAMS_COUNT c - ruby_stack_program_count (global_state k))"
proof (induction k rule: walk_chain_induct [of c e])
  case (Exit k k' log)
  then show ?case by (simp add: walk_chain_Exit)
next
  case (Tail_call k k' log)
  from walk_ruby_stack_Tail_call [OF Tail_call(1)] Tail_call(2)
  show ?case by (simp add: walk_chain_Tail_call [OF Tail_call(1)])
qed

lemma walk_chain_butlast:
  "\<forall>inv \<in> set (butlast (walk_chain c e k)).
      inv_action inv = Tail_call \<and> events (inv_kernel inv) = events k
      \<and> cfp (global_state (inv_kernel inv)) \<le> base_stack (global_state (inv_kernel inv))"
proof (induction k rule: walk_chain_induct [of c e])
  case (Exit k k' log)
  then show ?case by (simp add: walk_chain_Exit)
next
  case (Tail_call k k' log)
  from walk_ruby_stack_Tail_call [OF Tail_call(1)] Tail_call(2)
  show ?case
    by (auto simp: walk_chain_Tail_call [OF Tail_call(1)] walk_chain_not_Nil)
qed

lemma walk_chain_last:
  assumes "bpf_array_lookup_elem (version_specific_offsets k) (sample_rb_version (global_state k)) \<noteq> None"
  shows "inv_action (last (walk_chain c e k)) = Exit
    \<and> events (inv_kernel (last (walk_chain c e k)))
        = events k @ [stack (global_state (inv_kernel (last (walk_chain c e k))))]
    \<and> stack_status (stack (global_state (inv_kernel (last (walk_chain c e k))))) =
       (if cfp (global_state (inv_kernel (last (walk_chain c e k))))
            > base_stack (global_state (inv_kernel (last (walk_chain c e k))))
        then STACK_COMPLETE else STACK_INCOMPLETE)"
  using assms
proof (induction k rule: walk_chain_induct [of c e])
  case (Exit k k' log)
  from walk_ruby_stack_Exit [OF Exit(1) Exit(2)]
  show ?case by (simp add: walk_chain_Exit [OF Exit(1)])
next
  case (Tail_call k k' log)
  from walk_ruby_stack_Tail_call [OF Tail_call(1)] Tail_call(2) Tail_call(3)
  show ?case
    by (auto simp: walk_chain_Tail_call [OF Tail_call(1)] walk_chain_not_Nil)
qed

subsection \<open>The entry program, by cases\<close>

lemma prime_sample_keeps:
  "events (snd (prime_sample c e k p pd)) = events k
   \<and> version_specific_offsets (snd (prime_sample c e k p pd)) = version_specific_offsets k
   \<and> pid_to_rb_thread (snd (prime_sample c e k p pd)) = pid_to_rb_thread k
   \<and> id_to_stack (snd (prime_sample c e k p pd)) = id_to_stack k
   \<and> stack_to_id (snd (prime_sample c e k p pd)) = stack_to_id k
   \<and> prandom_calls (snd (prime_sample c e k p pd)) = prandom_calls k"
  by (simp add: prime_sample_def lookup_global_state_def Let_def split: option.splits)

lemma prime_sample_None:
  assumes "bpf_array_lookup_elem (version_specific_offsets k) (rb_version pd) = None"
  shows "prime_sample c e k p pd = (Exit, k)"
  using assms by (simp add: prime_sample_def)

lemma prime_sample_Some:
  assumes "bpf_array_lookup_elem (version_specific_offsets k) (rb_version pd) = Some vo"
  shows "fst (prime_sample c e k p pd) = (if continuation_loaded e then Tail_call else Exit)
    \<and> size_stack (stack (global_state (snd (prime_sample c e k p pd)))) = 0
    \<and> ruby_stack_program_count (global_state (snd (prime_sample c e k p pd))) = 0
    \<and> sample_rb_version (global_state (snd (prime_sample c e k p pd))) = rb_version pd
    \<and> frames (stack (global_state (snd (prime_sample c e k p pd))))
        = frames (stack (global_state k))"
  using assms by (simp add: prime_sample_def lookup_global_state_def Let_def)

lemma on_event_events: "events (snd (on_event c e k)) = events k"
  using prime_sample_keeps
  by (simp add: on_event_def Let_def split: option.splits)

lemma on_event_Tail_call:
  assumes "on_event c e k = (Tail_call, k1)"
  shows "events k1 = events k
    \<and> size_stack (stack (global_state k1)) = 0
    \<and> ruby_stack_program_count (global_state k1) = 0
    \<and> bpf_array_lookup_elem (version_specific_offsets k1) (sample_rb_version (global_state k1)) \<noteq> None
    \<and> continuation_loaded e"
proof -
  from assms obtain pd pd1 where
    ps: "prime_sample c e (k\<lparr>pid_to_rb_thread :=
            AList.update (ucast (drop_bit 32 (current_pid_tgid e))) pd1 (pid_to_rb_thread k)\<rparr>)
          (ucast (drop_bit 32 (current_pid_tgid e))) pd1 = (Tail_call, k1)"
    by (auto simp: on_event_def Let_def split: option.splits if_splits)
  let ?k0 = "k\<lparr>pid_to_rb_thread :=
            AList.update (ucast (drop_bit 32 (current_pid_tgid e))) pd1 (pid_to_rb_thread k)\<rparr>"
  let ?p = "ucast (drop_bit 32 (current_pid_tgid e)) :: u32"
  from ps obtain vo where
    vo: "bpf_array_lookup_elem (version_specific_offsets ?k0) (rb_version pd1) = Some vo"
    by (cases "bpf_array_lookup_elem (version_specific_offsets ?k0) (rb_version pd1)")
      (auto simp: prime_sample_None)
  from prime_sample_Some [OF vo, of c e ?p] prime_sample_keeps [of c e ?k0 ?p pd1] ps vo
  show ?thesis by (auto split: if_splits)
qed

subsection \<open>The loop, frame by frame\<close>

lemma walk_frame_cases:
  assumes "walk_frame c e vo k f p ia pc = (k1, f1, ev)"
  obtains (appended) new_id k0 where
      "0 \<le> size_stack (stack (global_state k))"
      "size_stack (stack (global_state k)) < int (MAX_STACK c)"
      "find_or_insert_frame e k (decode_control_frame c e vo f ia pc) = (new_id, k0)"
      "k1 = k0\<lparr>global_state := (global_state k)\<lparr>stack := (stack (global_state k))
          \<lparr>frames := (frames (stack (global_state k)))
               [nat (size_stack (stack (global_state k))) := new_id],
           size_stack := size_stack (stack (global_state k)) + 1\<rparr>\<rparr>\<rparr>"
      "f1 = decode_control_frame c e vo f ia pc"
      "ev = \<lparr>fe_cfp = p, fe_iseq_addr = ia, fe_frame = f1,
             fe_slot = Some (nat (size_stack (stack (global_state k))), new_id)\<rparr>"
  | (dropped)
      "\<not> (0 \<le> size_stack (stack (global_state k))
          \<and> size_stack (stack (global_state k)) < int (MAX_STACK c))"
      "k1 = k"
      "f1 = decode_control_frame c e vo f ia pc"
      "ev = \<lparr>fe_cfp = p, fe_iseq_addr = ia, fe_frame = f1, fe_slot = None\<rparr>"
proof (cases "0 \<le> size_stack (stack (global_state k))
          \<and> size_stack (stack (global_state k)) < int (MAX_STACK c)")
  case True
  obtain new_id k0 where fi:
    "find_or_insert_frame e k (decode_control_frame c e vo f ia pc) = (new_id, k0)"
    by (metis surj_pair)
  from find_or_insert_frame_keeps(1) [OF fi] have gs: "global_state k0 = global_state k" .
  show ?thesis
    using True assms fi gs
    by (intro appended [of new_id k0]) (auto simp: walk_frame_def Let_def)
next
  case False
  with assms show ?thesis
    by (intro dropped) (auto simp: walk_frame_def Let_def)
qed

lemma walk_loop_Suc:
  "walk_loop c e vo fs (Suc n) k f p =
     (if p > base_stack (global_state k) then (k, f, p, [])
      else case walk_frame c e vo k f p (rbperf_read (mem_u64 e) (p + iseq_offset c))
                  (rbperf_read (mem_u64 e) (rbperf_read (mem_u64 e) p)) of
             (k1, f1, ev) \<Rightarrow>
               (case walk_loop c e vo fs n k1 f1 (p + fs) of
                  (k2, f2, p2, log) \<Rightarrow> (k2, f2, p2, ev # log)))"
  by (simp add: Let_def)

text \<open>An invariant rule for the loop: a property of the maps, the local frame and the
  local pointer that every walked frame preserves holds when the loop is left, and what
  every walked frame establishes of its log entry holds of the whole log.\<close>

lemma walk_loop_rule:
  assumes run: "walk_loop c e vo fs n k f p = (k', f', p', log)"
    and init: "I k f p"
    and step: "\<And>k f p k1 f1 ev.
      I k f p \<Longrightarrow> p \<le> base_stack (global_state k) \<Longrightarrow>
      walk_frame c e vo k f p (rbperf_read (mem_u64 e) (p + iseq_offset c))
        (rbperf_read (mem_u64 e) (rbperf_read (mem_u64 e) p)) = (k1, f1, ev) \<Longrightarrow>
      I k1 f1 (p + fs) \<and> Q ev"
  shows "I k' f' p' \<and> (\<forall>ev \<in> set log. Q ev) \<and> length log \<le> n"
  using run init
proof (induction n arbitrary: k f p log)
  case 0
  then show ?case by simp
next
  case (Suc n)
  show ?case
  proof (cases "p > base_stack (global_state k)")
    case True
    with Suc.prems show ?thesis by simp
  next
    case False
    obtain k1 f1 ev where wf: "walk_frame c e vo k f p
        (rbperf_read (mem_u64 e) (p + iseq_offset c))
        (rbperf_read (mem_u64 e) (rbperf_read (mem_u64 e) p)) = (k1, f1, ev)"
      by (metis prod_cases3)
    obtain k2 f2 p2 l2 where wl: "walk_loop c e vo fs n k1 f1 (p + fs) = (k2, f2, p2, l2)"
      by (metis prod_cases4)
    from Suc.prems(1) False wf wl
    have eq: "k' = k2" "f' = f2" "p' = p2" "log = ev # l2"
      by (simp_all add: walk_loop_Suc)
    from False have le: "p \<le> base_stack (global_state k)" by simp
    from step [OF Suc.prems(2) le wf] have I1: "I k1 f1 (p + fs)" and Q: "Q ev" by simp_all
    from wl eq have wl': "walk_loop c e vo fs n k1 f1 (p + fs) = (k', f', p', l2)" by simp
    from Suc.IH [OF wl' I1] Q eq show ?thesis by simp
  qed
qed

subsection \<open>One sampled event, by cases\<close>

lemma handle_event_Exit:
  assumes "on_event c e k = (Exit, k1)"
  shows "handle_event c e k = (k1, [])" "published k k1 = []"
  using assms on_event_events [of c e k] by (simp_all add: handle_event_def published_def)

lemma handle_event_Tail_call:
  assumes "on_event c e k = (Tail_call, k1)"
  shows "handle_event c e k = (inv_kernel (last (walk_chain c e k1)), walk_chain c e k1)"
    "published k (inv_kernel (last (walk_chain c e k1)))
       = [stack (global_state (inv_kernel (last (walk_chain c e k1))))]"
    "\<forall>inv \<in> set (butlast (walk_chain c e k1)). published k (inv_kernel inv) = []"
proof -
  show "handle_event c e k = (inv_kernel (last (walk_chain c e k1)), walk_chain c e k1)"
    using assms by (simp add: handle_event_def Let_def)
  from on_event_Tail_call [OF assms]
  have ev: "events k1 = events k"
    and lk: "bpf_array_lookup_elem (version_specific_offsets k1)
          (sample_rb_version (global_state k1)) \<noteq> None"
    by simp_all
  from walk_chain_last [OF lk, of c e] ev
  show "published k (inv_kernel (last (walk_chain c e k1)))
       = [stack (global_state (inv_kernel (last (walk_chain c e k1))))]"
    by (simp add: published_def)
  from walk_chain_butlast [of c e k1] ev
  show "\<forall>inv \<in> set (butlast (walk_chain c e k1)). published k (inv_kernel inv) = []"
    by (simp add: published_def)
qed

subsection \<open>Bounds\<close>

lemma walk_frame_size:
  assumes "walk_frame c e vo k f p ia pc = (k1, f1, ev)"
    and "0 \<le> size_stack (stack (global_state k))"
    and "size_stack (stack (global_state k)) \<le> int (MAX_STACK c)"
  shows "0 \<le> size_stack (stack (global_state k1))
    \<and> size_stack (stack (global_state k1)) \<le> int (MAX_STACK c)"
  using assms(1)
proof (cases rule: walk_frame_cases)
  case (appended new_id k0)
  with assms(2) show ?thesis by simp
next
  case dropped
  with assms(2,3) show ?thesis by simp
qed

lemma walk_ruby_stack_size:
  assumes "walk_ruby_stack c e k = (a, k', log)"
    and "0 \<le> size_stack (stack (global_state k))"
    and "size_stack (stack (global_state k)) \<le> int (MAX_STACK c)"
  shows "0 \<le> size_stack (stack (global_state k'))
    \<and> size_stack (stack (global_state k')) \<le> int (MAX_STACK c)
    \<and> length log \<le> MAX_STACKS_PER_PROGRAM c"
proof (cases rule: walk_ruby_stack_cases [of k c e])
  case no_offsets
  with assms show ?thesis by simp
next
  case (walked vo k2 f p1 log2)
  have "(0 \<le> size_stack (stack (global_state k2))
      \<and> size_stack (stack (global_state k2)) \<le> int (MAX_STACK c))
    \<and> (\<forall>ev \<in> set log2. True) \<and> length log2 \<le> MAX_STACKS_PER_PROGRAM c"
    by (rule walk_loop_rule [OF walked(2),
          where I = "\<lambda>k f p. 0 \<le> size_stack (stack (global_state k))
            \<and> size_stack (stack (global_state k)) \<le> int (MAX_STACK c)"
          and Q = "\<lambda>ev. True"])
      (use assms(2,3) walk_frame_size in auto)
  with walked(3) assms(1) show ?thesis
    by (auto simp: publish_simps split: if_splits)
qed

lemma walk_chain_size:
  assumes "0 \<le> size_stack (stack (global_state k))"
    and "size_stack (stack (global_state k)) \<le> int (MAX_STACK c)"
  shows "\<forall>inv \<in> set (walk_chain c e k).
    0 \<le> size_stack (stack (global_state (inv_kernel inv)))
    \<and> size_stack (stack (global_state (inv_kernel inv))) \<le> int (MAX_STACK c)
    \<and> length (inv_log inv) \<le> MAX_STACKS_PER_PROGRAM c"
  using assms
proof (induction k rule: walk_chain_induct [of c e])
  case (Exit k k' log)
  from walk_ruby_stack_size [OF Exit(1) Exit(2) Exit(3)]
  show ?case by (simp add: walk_chain_Exit [OF Exit(1)])
next
  case (Tail_call k k' log)
  from walk_ruby_stack_size [OF Tail_call(1) Tail_call(3) Tail_call(4)] Tail_call(2)
  show ?case by (simp add: walk_chain_Tail_call [OF Tail_call(1)])
qed

text \<open>
  Claim C6. In every sampled event, where the tail-call budget is at least one: a
  published StackRecord has a size between 0 and \<open>MAX_STACK\<close>; no invocation of
  \<open>walk_ruby_stack\<close> takes more than \<open>MAX_STACKS_PER_PROGRAM\<close> control frames past its
  termination check; and the walker is invoked at most \<open>BPF_PROGRAMS_COUNT\<close> times, the
  entry's tail call and the walker's own together.
\<close>

theorem bound_adherence:
  assumes "1 \<le> BPF_PROGRAMS_COUNT c"
  shows "(\<forall>r \<in> set (published k (fst (handle_event c e k))).
            0 \<le> size_stack r \<and> size_stack r \<le> int (MAX_STACK c))
    \<and> (\<forall>inv \<in> set (snd (handle_event c e k)).
            length (inv_log inv) \<le> MAX_STACKS_PER_PROGRAM c)
    \<and> int (length (snd (handle_event c e k))) \<le> BPF_PROGRAMS_COUNT c"
proof -
  obtain a k1 where oe: "on_event c e k = (a, k1)" by (metis surj_pair)
  show ?thesis
  proof (cases a)
    case Exit
    with oe handle_event_Exit [of c e k k1] assms show ?thesis by simp
  next
    case Tail_call
    with oe have oe': "on_event c e k = (Tail_call, k1)" by simp
    note he = handle_event_Tail_call [OF oe']
    from on_event_Tail_call [OF oe']
    have s0: "size_stack (stack (global_state k1)) = 0"
      and c0: "ruby_stack_program_count (global_state k1) = 0" by simp_all
    have sz: "\<forall>inv \<in> set (walk_chain c e k1).
      0 \<le> size_stack (stack (global_state (inv_kernel inv)))
      \<and> size_stack (stack (global_state (inv_kernel inv))) \<le> int (MAX_STACK c)
      \<and> length (inv_log inv) \<le> MAX_STACKS_PER_PROGRAM c"
      by (rule walk_chain_size) (simp_all add: s0)
    have "last (walk_chain c e k1) \<in> set (walk_chain c e k1)"
      by (simp add: walk_chain_not_Nil)
    with sz have "0 \<le> size_stack (stack (global_state (inv_kernel (last (walk_chain c e k1)))))
      \<and> size_stack (stack (global_state (inv_kernel (last (walk_chain c e k1)))))
          \<le> int (MAX_STACK c)"
      by blast
    moreover from walk_chain_length [of c e k1] c0 assms
    have "int (length (walk_chain c e k1)) \<le> BPF_PROGRAMS_COUNT c" by simp
    ultimately show ?thesis using he sz by simp
  qed
qed

subsection \<open>The sample event, run\<close>

lemmas ex_defs = ex_consts_def ex_env_def ex_kernel_def ex_offsets_def ex_state_def

lemmas prog_defs = on_event_def prime_sample_def pid_race_detector_def
  walk_ruby_stack_def walk_frame_def decode_control_frame_def find_or_insert_frame_def
  bpf_map_lookup_elem_def bpf_map_update_elem_def bpf_array_lookup_elem_def
  lookup_global_state_def rbperf_read_def probe_read_str_def bpf_get_prandom_u32_def
  publish_def bpf_ringbuf_output_def bpf_perf_event_output_def zero_frame_def
  NATIVE_METHOD_NAME_def NUL_def hash_max_entries_def read_syscall_id_def

lemmas ex_run_defs = ex_native_def ex_primed_def ex_mid_def ex_record_def ex_final_def
  ex_log1_def ex_log2_def

lemma replicate_2: "replicate 2 x = [x, x]"
  by (simp add: numeral_2_eq_2)

lemma ex_on_event: "on_event ex_consts ex_env ex_kernel = (Tail_call, ex_primed)"
  by (simp add: ex_defs ex_run_defs prog_defs Let_def replicate_2)

lemma ex_walk1: "walk_ruby_stack ex_consts ex_env ex_primed = (Tail_call, ex_mid, ex_log1)"
  by (simp add: ex_defs ex_run_defs prog_defs Let_def replicate_2)

lemma ex_walk2: "walk_ruby_stack ex_consts ex_env ex_mid = (Exit, ex_final, ex_log2)"
  by (simp add: ex_defs ex_run_defs prog_defs Let_def replicate_2)

lemma ex_handle_event:
  "handle_event ex_consts ex_env ex_kernel =
     (ex_final,
      [\<lparr>inv_action = Tail_call, inv_kernel = ex_mid, inv_log = ex_log1\<rparr>,
       \<lparr>inv_action = Exit, inv_kernel = ex_final, inv_log = ex_log2\<rparr>])"
  by (simp add: handle_event_def ex_on_event walk_chain_Tail_call [OF ex_walk1]
      walk_chain_Exit [OF ex_walk2])

lemma ex_published: "published ex_kernel ex_final = [ex_record]"
  by (simp add: published_def ex_final_def ex_kernel_def)

theorem bound_adherence_witness:
  "1 \<le> BPF_PROGRAMS_COUNT ex_consts
   \<and> map size_stack (published ex_kernel (fst (handle_event ex_consts ex_env ex_kernel))) = [2]
   \<and> map (\<lambda>inv. length (inv_log inv)) (snd (handle_event ex_consts ex_env ex_kernel)) = [2, 1]
   \<and> list_all (\<lambda>r. 0 \<le> size_stack r \<and> size_stack r \<le> int (MAX_STACK ex_consts))
        (published ex_kernel (fst (handle_event ex_consts ex_env ex_kernel)))
   \<and> list_all (\<lambda>inv. length (inv_log inv) \<le> MAX_STACKS_PER_PROGRAM ex_consts)
        (snd (handle_event ex_consts ex_env ex_kernel))
   \<and> int (length (snd (handle_event ex_consts ex_env ex_kernel))) \<le> BPF_PROGRAMS_COUNT ex_consts"
proof -
  have b: "1 \<le> BPF_PROGRAMS_COUNT ex_consts" by (simp add: ex_consts_def)
  from bound_adherence [OF b, of ex_kernel ex_env] b show ?thesis
    unfolding list_all_iff ex_handle_event fst_conv snd_conv ex_published
    by (simp add: ex_record_def ex_log1_def ex_log2_def)
qed

subsection \<open>One emission or none\<close>

lemma on_event_aborts:
  assumes "entry_aborts c e k"
  shows "fst (on_event c e k) = Exit"
  using assms
  by (auto simp: entry_aborts_def on_event_def pid_race_detector_def prime_sample_None Let_def
      split: option.splits)

lemma action_cases: "a = Exit \<or> a = Tail_call"
  by (cases a) simp_all

text \<open>
  Claim C7. An entry program that returns (among others on each abort that the spec
  lists) runs no walker and puts nothing on the output channel. An entry program that
  tail-calls the continuation is followed by a chain of walker invocations of which all
  but the last tail-call again and publish nothing, and the last returns having
  published exactly one record, the StackRecord of the sample state. So an event
  publishes one record or none.
\<close>

theorem one_emission_or_none:
  "(fst (on_event c e k) = Exit \<longrightarrow>
      snd (handle_event c e k) = [] \<and> published k (fst (handle_event c e k)) = [])
   \<and> (entry_aborts c e k \<longrightarrow> fst (on_event c e k) = Exit)
   \<and> (fst (on_event c e k) = Tail_call \<longrightarrow>
        snd (handle_event c e k) \<noteq> []
        \<and> (\<forall>inv \<in> set (butlast (snd (handle_event c e k))).
              inv_action inv = Tail_call \<and> published k (inv_kernel inv) = [])
        \<and> inv_action (last (snd (handle_event c e k))) = Exit
        \<and> inv_kernel (last (snd (handle_event c e k))) = fst (handle_event c e k)
        \<and> published k (fst (handle_event c e k))
            = [stack (global_state (fst (handle_event c e k)))])
   \<and> length (published k (fst (handle_event c e k))) \<le> 1"
proof -
  obtain a k1 where oe: "on_event c e k = (a, k1)" by (metis surj_pair)
  have ex: "a = Exit \<Longrightarrow>
      snd (handle_event c e k) = [] \<and> published k (fst (handle_event c e k)) = []"
    using oe handle_event_Exit [of c e k k1] by simp
  have tc: "snd (handle_event c e k) \<noteq> []
        \<and> (\<forall>inv \<in> set (butlast (snd (handle_event c e k))).
              inv_action inv = Tail_call \<and> published k (inv_kernel inv) = [])
        \<and> inv_action (last (snd (handle_event c e k))) = Exit
        \<and> inv_kernel (last (snd (handle_event c e k))) = fst (handle_event c e k)
        \<and> published k (fst (handle_event c e k))
            = [stack (global_state (fst (handle_event c e k)))]" if "a = Tail_call"
  proof -
    from that oe have oe': "on_event c e k = (Tail_call, k1)" by simp
    note he = handle_event_Tail_call [OF oe']
    from on_event_Tail_call [OF oe']
    have lk: "bpf_array_lookup_elem (version_specific_offsets k1)
          (sample_rb_version (global_state k1)) \<noteq> None" by simp
    from he walk_chain_not_Nil [of c e k1] walk_chain_butlast [of c e k1]
      walk_chain_last [OF lk, of c e]
    show ?thesis by simp
  qed
  from ex tc action_cases [of a]
  have "length (published k (fst (handle_event c e k))) \<le> 1" by auto
  with ex tc oe on_event_aborts [of c e k] show ?thesis by simp
qed

theorem one_emission_or_none_witness:
  "entry_aborts ex_consts ex_env ex_unregistered
   \<and> fst (on_event ex_consts ex_env ex_unregistered) = Exit
   \<and> published ex_unregistered (fst (handle_event ex_consts ex_env ex_unregistered)) = []
   \<and> fst (on_event ex_consts ex_env ex_kernel) = Tail_call
   \<and> map inv_action (snd (handle_event ex_consts ex_env ex_kernel)) = [Tail_call, Exit]
   \<and> published ex_kernel (inv_kernel (hd (snd (handle_event ex_consts ex_env ex_kernel)))) = []
   \<and> published ex_kernel (fst (handle_event ex_consts ex_env ex_kernel))
       = [stack (global_state (fst (handle_event ex_consts ex_env ex_kernel)))]"
proof -
  have a: "entry_aborts ex_consts ex_env ex_unregistered"
    by (simp add: entry_aborts_def ex_unregistered_def bpf_map_lookup_elem_def)
  have b: "fst (on_event ex_consts ex_env ex_kernel) = Tail_call"
    by (simp add: ex_on_event)
  have c: "published ex_kernel ex_mid = []"
    by (simp add: published_def ex_mid_def ex_primed_def ex_kernel_def)
  from one_emission_or_none [of ex_consts ex_env ex_unregistered]
    one_emission_or_none [of ex_consts ex_env ex_kernel] a b c
  show ?thesis by (simp add: ex_handle_event)
qed

subsection \<open>Completion status\<close>

text \<open>
  Claim C1. With a tail-call budget of at least one, the record that an event publishes
  has status COMPLETE if one of the walker's invocations within the budget left \<open>cfp\<close>
  above \<open>base_stack\<close>, and INCOMPLETE otherwise.
\<close>

theorem completion_status:
  assumes "1 \<le> BPF_PROGRAMS_COUNT c"
  shows "\<forall>r \<in> set (published k (fst (handle_event c e k))).
    stack_status r = (if observed_top c (snd (handle_event c e k)) then STACK_COMPLETE
                      else STACK_INCOMPLETE)"
proof -
  obtain a k1 where oe: "on_event c e k = (a, k1)" by (metis surj_pair)
  show ?thesis
  proof (cases a)
    case Exit
    with oe handle_event_Exit [of c e k k1] show ?thesis by simp
  next
    case Tail_call
    with oe have oe': "on_event c e k = (Tail_call, k1)" by simp
    note he = handle_event_Tail_call [OF oe']
    let ?invs = "walk_chain c e k1"
    let ?top = "\<lambda>inv. base_stack (global_state (inv_kernel inv))
                       < cfp (global_state (inv_kernel inv))"
    from on_event_Tail_call [OF oe']
    have lk: "bpf_array_lookup_elem (version_specific_offsets k1)
          (sample_rb_version (global_state k1)) \<noteq> None"
      and c0: "ruby_stack_program_count (global_state k1) = 0" by simp_all
    from walk_chain_length [of c e k1] c0 assms
    have "length ?invs \<le> nat (BPF_PROGRAMS_COUNT c)" by simp
    then have tk: "take (nat (BPF_PROGRAMS_COUNT c)) ?invs = ?invs" by simp
    have split: "?invs = butlast ?invs @ [last ?invs]"
      by (simp add: walk_chain_not_Nil)
    from walk_chain_butlast [of c e k1]
    have nb: "\<not> list_ex ?top (butlast ?invs)"
      by (auto simp: list_ex_iff)
    have "list_ex ?top ?invs = (list_ex ?top (butlast ?invs) \<or> ?top (last ?invs))"
      by (subst split) (simp del: append_butlast_last_id)
    with nb tk have ot: "observed_top c ?invs = ?top (last ?invs)"
      by (simp add: observed_top_def)
    from walk_chain_last [OF lk, of c e] he ot show ?thesis by simp
  qed
qed

theorem completion_status_witness:
  "1 \<le> BPF_PROGRAMS_COUNT ex_consts
   \<and> observed_top ex_consts (snd (handle_event ex_consts ex_env ex_kernel))
   \<and> map stack_status (published ex_kernel (fst (handle_event ex_consts ex_env ex_kernel)))
       = [STACK_COMPLETE]
   \<and> 1 \<le> BPF_PROGRAMS_COUNT ex_short_budget
   \<and> \<not> observed_top ex_short_budget (snd (handle_event ex_short_budget ex_env ex_kernel))
   \<and> map stack_status (published ex_kernel (fst (handle_event ex_short_budget ex_env ex_kernel)))
       = [STACK_INCOMPLETE]"
proof -
  have b1: "1 \<le> BPF_PROGRAMS_COUNT ex_consts" by (simp add: ex_consts_def)
  have b2: "1 \<le> BPF_PROGRAMS_COUNT ex_short_budget"
    by (simp add: ex_short_budget_def)
  have o1: "observed_top ex_consts (snd (handle_event ex_consts ex_env ex_kernel))"
    unfolding ex_handle_event snd_conv
    by (simp add: observed_top_def ex_final_def ex_mid_def ex_consts_def)
  have l2: "length (published ex_kernel (fst (handle_event ex_short_budget ex_env ex_kernel))) = 1"
    and o2: "\<not> observed_top ex_short_budget (snd (handle_event ex_short_budget ex_env ex_kernel))"
    by (simp_all add: handle_event_def walk_chain.simps ex_defs ex_short_budget_def prog_defs
        Let_def published_def observed_top_def)
  from l2 obtain r where
    r: "published ex_kernel (fst (handle_event ex_short_budget ex_env ex_kernel)) = [r]"
    by (cases "published ex_kernel (fst (handle_event ex_short_budget ex_env ex_kernel))") auto
  from completion_status [OF b1, of ex_kernel ex_env] completion_status [OF b2, of ex_kernel ex_env]
    b1 b2 o1 o2 r ex_published
  show ?thesis by (simp add: ex_handle_event ex_record_def)
qed

subsection \<open>The PID-reuse guard\<close>

lemma walk_ruby_stack_pids:
  assumes "walk_ruby_stack c e k = (a, k', log)"
  shows "pid_to_rb_thread k' = pid_to_rb_thread k"
proof (cases rule: walk_ruby_stack_cases [of k c e])
  case no_offsets
  with assms show ?thesis by simp
next
  case (walked vo k2 f p1 log2)
  from walked(3) assms walk_loop_keeps [OF walked(2)]
  show ?thesis by (auto simp: publish_simps split: if_splits)
qed

lemma walk_chain_pids:
  "\<forall>inv \<in> set (walk_chain c e k). pid_to_rb_thread (inv_kernel inv) = pid_to_rb_thread k"
proof (induction k rule: walk_chain_induct [of c e])
  case (Exit k k' log)
  from walk_ruby_stack_pids [OF Exit(1)]
  show ?case by (simp add: walk_chain_Exit [OF Exit(1)])
next
  case (Tail_call k k' log)
  from walk_ruby_stack_pids [OF Tail_call(1)] Tail_call(2)
  show ?case by (simp add: walk_chain_Tail_call [OF Tail_call(1)])
qed

lemma handle_event_pids:
  "pid_to_rb_thread (fst (handle_event c e k)) = pid_to_rb_thread (snd (on_event c e k))"
proof -
  obtain a k1 where oe: "on_event c e k = (a, k1)" by (metis surj_pair)
  show ?thesis
  proof (cases a)
    case Exit
    with oe handle_event_Exit [of c e k k1] show ?thesis by simp
  next
    case Tail_call
    with oe have oe': "on_event c e k = (Tail_call, k1)" by simp
    have "last (walk_chain c e k1) \<in> set (walk_chain c e k1)"
      by (simp add: walk_chain_not_Nil)
    with walk_chain_pids [of c e k1] handle_event_Tail_call(1) [OF oe'] oe'
    show ?thesis by simp
  qed
qed

text \<open>
  Claim C5. With the guard enabled and the event's process registered (its record has a
  non-zero thread pointer): if the record's start time is non-zero and is not the task's
  observed start time, the entry returns at once, no walker runs, no sample is emitted
  and the maps are untouched. If the record's start time is 0 (and the task pointer is
  not NULL, which the kernel guarantees), the observed start time is stored in the
  record, and stays there to the end of the event; sampling then proceeds: when the
  version has offsets and the continuation is loaded, the entry tail-calls the walker
  and one sample is emitted.
\<close>

theorem pid_reuse_guard:
  assumes "enable_pid_race_detector c"
    and "bpf_map_lookup_elem (pid_to_rb_thread k) (ucast (drop_bit 32 (current_pid_tgid e)))
           = Some pd"
    and "rb_frame_addr pd \<noteq> 0"
  shows "(start_time pd \<noteq> 0
          \<and> start_time pd \<noteq> (case task_start_time e of None \<Rightarrow> 0 | Some t \<Rightarrow> t) \<longrightarrow>
            on_event c e k = (Exit, k) \<and> handle_event c e k = (k, [])
            \<and> published k (fst (handle_event c e k)) = [])
    \<and> (start_time pd = 0 \<and> current_task e \<noteq> 0 \<longrightarrow>
          bpf_map_lookup_elem (pid_to_rb_thread (fst (handle_event c e k)))
              (ucast (drop_bit 32 (current_pid_tgid e)))
            = Some (pd\<lparr>start_time := (case task_start_time e of None \<Rightarrow> 0 | Some t \<Rightarrow> t)\<rparr>)
          \<and> (bpf_array_lookup_elem (version_specific_offsets k) (rb_version pd) \<noteq> None
               \<and> continuation_loaded e \<longrightarrow>
                fst (on_event c e k) = Tail_call
                \<and> length (published k (fst (handle_event c e k))) = 1))"
proof (intro conjI impI)
  assume "start_time pd \<noteq> 0
          \<and> start_time pd \<noteq> (case task_start_time e of None \<Rightarrow> 0 | Some t \<Rightarrow> t)"
  with assms show oe: "on_event c e k = (Exit, k)"
    by (simp add: on_event_def pid_race_detector_def Let_def)
  from handle_event_Exit [OF oe]
  show "handle_event c e k = (k, [])" "published k (fst (handle_event c e k)) = []"
    by simp_all
next
  let ?p = "ucast (drop_bit 32 (current_pid_tgid e)) :: u32"
  let ?pd1 = "pd\<lparr>start_time := (case task_start_time e of None \<Rightarrow> 0 | Some t \<Rightarrow> t)\<rparr>"
  let ?k1 = "k\<lparr>pid_to_rb_thread := AList.update ?p ?pd1 (pid_to_rb_thread k)\<rparr>"
  assume z: "start_time pd = 0 \<and> current_task e \<noteq> 0"
  with assms have oe: "on_event c e k = prime_sample c e ?k1 ?p ?pd1"
    by (simp add: on_event_def pid_race_detector_def Let_def)
  from prime_sample_keeps [of c e ?k1 ?p ?pd1] oe
  have "pid_to_rb_thread (snd (on_event c e k)) = AList.update ?p ?pd1 (pid_to_rb_thread k)"
    by simp
  then show "bpf_map_lookup_elem (pid_to_rb_thread (fst (handle_event c e k))) ?p = Some ?pd1"
    by (simp add: handle_event_pids bpf_map_lookup_elem_def update_conv')
  {
    assume v: "bpf_array_lookup_elem (version_specific_offsets k) (rb_version pd) \<noteq> None
               \<and> continuation_loaded e"
    then obtain vo where
      "bpf_array_lookup_elem (version_specific_offsets ?k1) (rb_version ?pd1) = Some vo"
      by auto
    from prime_sample_Some [OF this, of c e ?p] oe v
    show tc: "fst (on_event c e k) = Tail_call" by simp
    then have "on_event c e k = (Tail_call, snd (on_event c e k))"
      by (metis prod.collapse)
    from handle_event_Tail_call(1,2) [OF this]
    show "length (published k (fst (handle_event c e k))) = 1" by simp
  }
qed

theorem pid_reuse_guard_witness:
  "enable_pid_race_detector ex_consts
   \<and> bpf_map_lookup_elem (pid_to_rb_thread ex_raced) (ucast (drop_bit 32 (current_pid_tgid ex_env)))
       = Some \<lparr>rb_frame_addr = 0x1000, rb_version = 0, start_time = 77\<rparr>
   \<and> task_start_time ex_env = Some 1234
   \<and> handle_event ex_consts ex_env ex_raced = (ex_raced, [])
   \<and> published ex_raced (fst (handle_event ex_consts ex_env ex_raced)) = []
   \<and> bpf_map_lookup_elem (pid_to_rb_thread ex_kernel) (ucast (drop_bit 32 (current_pid_tgid ex_env)))
       = Some \<lparr>rb_frame_addr = 0x1000, rb_version = 0, start_time = 0\<rparr>
   \<and> current_task ex_env \<noteq> 0
   \<and> bpf_map_lookup_elem (pid_to_rb_thread (fst (handle_event ex_consts ex_env ex_kernel)))
         (ucast (drop_bit 32 (current_pid_tgid ex_env)))
       = Some \<lparr>rb_frame_addr = 0x1000, rb_version = 0, start_time = 1234\<rparr>
   \<and> fst (on_event ex_consts ex_env ex_kernel) = Tail_call
   \<and> length (published ex_kernel (fst (handle_event ex_consts ex_env ex_kernel))) = 1"
proof -
  have en: "enable_pid_race_detector ex_consts" by (simp add: ex_consts_def)
  have l1: "bpf_map_lookup_elem (pid_to_rb_thread ex_raced)
        (ucast (drop_bit 32 (current_pid_tgid ex_env)))
      = Some \<lparr>rb_frame_addr = 0x1000, rb_version = 0, start_time = 77\<rparr>"
    by (simp add: ex_raced_def ex_env_def bpf_map_lookup_elem_def)
  have l2: "bpf_map_lookup_elem (pid_to_rb_thread ex_kernel)
        (ucast (drop_bit 32 (current_pid_tgid ex_env)))
      = Some \<lparr>rb_frame_addr = 0x1000, rb_version = 0, start_time = 0\<rparr>"
    by (simp add: ex_kernel_def ex_env_def bpf_map_lookup_elem_def)
  have t: "task_start_time ex_env = Some 1234" "current_task ex_env \<noteq> 0"
    "continuation_loaded ex_env"
    by (simp_all add: ex_env_def)
  have v: "bpf_array_lookup_elem (version_specific_offsets ex_kernel) 0 \<noteq> None"
    by (simp add: ex_kernel_def bpf_array_lookup_elem_def)
  from pid_reuse_guard [OF en l1] pid_reuse_guard [OF en l2] l1 l2 en t v
  show ?thesis by (simp add: published_def)
qed

subsection \<open>What the entry program leaves in the sample state\<close>

lemma scast_double:
  fixes x :: "32 word"
  assumes "- (2 ^ 30) \<le> sint x" and "sint x < 2 ^ 30"
  shows "(scast (2 * x) :: 64 word) = 2 * scast x"
proof -
  have p: "(2::int) ^ 31 = 2 * 2 ^ 30" by simp
  have lo: "- (2 ^ 31) \<le> 2 * sint x" using assms(1) unfolding p by linarith
  have hi: "2 * sint x < 2 ^ 31" using assms(2) unfolding p by linarith
  have "sint (2 * x) = signed_take_bit 31 (sint (2 :: 32 word) * sint x)"
    by (simp only: sint_word_ariths) simp
  also have "sint (2 :: 32 word) = 2" by simp
  also have "signed_take_bit 31 (2 * sint x) = 2 * sint x"
    by (rule signed_take_bit_int_eq_self [OF lo hi])
  finally have eq: "sint (2 * x) = 2 * sint x" .
  have "(scast (2 * x) :: 64 word) = word_of_int (sint (2 * x))"
    by (rule scast_eq)
  also have "\<dots> = word_of_int (2 * sint x)"
    by (simp only: eq)
  also have "\<dots> = 2 * word_of_int (sint x)"
    by (simp only: of_int_mult of_int_numeral)
  also have "\<dots> = 2 * scast x"
    by (simp only: scast_eq)
  finally show ?thesis .
qed

lemma not_entry_aborts:
  assumes "\<not> entry_aborts c e k"
    and "bpf_map_lookup_elem (pid_to_rb_thread k) (ucast (drop_bit 32 (current_pid_tgid e)))
           = Some pd"
  shows "rb_frame_addr pd \<noteq> 0"
    "\<exists>pd1. pid_race_detector c e pd = Some pd1 \<and> rb_version pd1 = rb_version pd
       \<and> rb_frame_addr pd1 = rb_frame_addr pd"
    "bpf_array_lookup_elem (version_specific_offsets k) (rb_version pd) \<noteq> None"
  using assms by (auto simp: entry_aborts_def pid_race_detector_def Let_def)

text \<open>
  Claim C8. On an event that the entry program does not abort (the process is registered,
  the task pointer is not NULL, the guard passes, the version has offsets), the sample
  state is left with \<open>base_stack = vm + value_size * vm_size - 2 * control_frame_size\<close>
  in 64-bit wrap-around arithmetic, \<open>expected_size = (base_stack - cfp) /
  control_frame_size\<close> for the \<open>cfp\<close> as read from the execution context, size 0,
  program count 0, and the walking pointer \<open>cfp + control_frame_size\<close>. The file
  computes \<open>2 * control_frame_t_sizeof\<close> on a C \<open>int\<close>, where C defines the product only
  when it does not overflow; the frame size is taken in that range. A frame size of 0
  gives the quotient 0, as a BPF division by zero does.
\<close>

theorem entry_primes_sample:
  assumes "bpf_map_lookup_elem (pid_to_rb_thread k) (ucast (drop_bit 32 (current_pid_tgid e)))
             = Some pd"
    and "bpf_array_lookup_elem (version_specific_offsets k) (rb_version pd) = Some vo"
    and "\<not> entry_aborts c e k"
    and "current_task e \<noteq> 0"
    and "- (2 ^ 30) \<le> sint (control_frame_t_sizeof vo)"
    and "sint (control_frame_t_sizeof vo) < 2 ^ 30"
  shows
    "let control_frame_size = (scast (control_frame_t_sizeof vo) :: u64);
         thread = rbperf_read (mem_u64 e) (rb_frame_addr pd);
         main_thread = rbperf_read (mem_u64 e) (thread + scast (main_thread_offset vo));
         ec = rbperf_read (mem_u64 e) (main_thread + scast (ec_offset vo));
         vm = rbperf_read (mem_u64 e) (ec + scast (vm_offset vo));
         vm_size = rbperf_read (mem_u64 e) (ec + scast (vm_size_offset vo));
         cfp_read = rbperf_read (mem_u64 e) (ec + scast (cfp_offset vo));
         state = global_state (snd (on_event c e k))
     in base_stack state = vm + rb_value_sizeof c * vm_size - 2 * control_frame_size
        \<and> expected_size (stack state) = (base_stack state - cfp_read) div control_frame_size
        \<and> size_stack (stack state) = 0
        \<and> ruby_stack_program_count state = 0
        \<and> cfp state = cfp_read + control_frame_size"
proof -
  let ?p = "ucast (drop_bit 32 (current_pid_tgid e)) :: u32"
  from not_entry_aborts [OF assms(3) assms(1)] obtain pd1 where
    nz: "rb_frame_addr pd \<noteq> 0" and
    g: "pid_race_detector c e pd = Some pd1" and
    v: "rb_version pd1 = rb_version pd" and f: "rb_frame_addr pd1 = rb_frame_addr pd"
    by blast
  let ?k1 = "k\<lparr>pid_to_rb_thread := AList.update ?p pd1 (pid_to_rb_thread k)\<rparr>"
  from assms(1,4) nz g have oe: "on_event c e k = prime_sample c e ?k1 ?p pd1"
    by (simp add: on_event_def Let_def)
  from assms(2) v have vo: "bpf_array_lookup_elem (version_specific_offsets ?k1) (rb_version pd1)
      = Some vo" by simp
  show ?thesis
    unfolding oe
    using vo f scast_double [OF assms(5,6)]
    by (simp add: prime_sample_def lookup_global_state_def Let_def)
qed

theorem entry_primes_sample_witness:
  "bpf_map_lookup_elem (pid_to_rb_thread ex_kernel) (ucast (drop_bit 32 (current_pid_tgid ex_env)))
     = Some \<lparr>rb_frame_addr = 0x1000, rb_version = 0, start_time = 0\<rparr>
   \<and> bpf_array_lookup_elem (version_specific_offsets ex_kernel) 0 = Some ex_offsets
   \<and> \<not> entry_aborts ex_consts ex_env ex_kernel
   \<and> current_task ex_env \<noteq> 0
   \<and> sint (control_frame_t_sizeof ex_offsets) = 56
   \<and> base_stack (global_state (snd (on_event ex_consts ex_env ex_kernel)))
       = 0x10000 + 8 * 0x100 - 2 * 56
   \<and> expected_size (stack (global_state (snd (on_event ex_consts ex_env ex_kernel))))
       = (0x10790 - 0x106e8) div 56
   \<and> size_stack (stack (global_state (snd (on_event ex_consts ex_env ex_kernel)))) = 0
   \<and> ruby_stack_program_count (global_state (snd (on_event ex_consts ex_env ex_kernel))) = 0
   \<and> cfp (global_state (snd (on_event ex_consts ex_env ex_kernel))) = 0x106e8 + 56"
proof -
  have l: "bpf_map_lookup_elem (pid_to_rb_thread ex_kernel)
        (ucast (drop_bit 32 (current_pid_tgid ex_env)))
      = Some \<lparr>rb_frame_addr = 0x1000, rb_version = 0, start_time = 0\<rparr>"
    by (simp add: ex_kernel_def ex_env_def bpf_map_lookup_elem_def)
  have v: "bpf_array_lookup_elem (version_specific_offsets ex_kernel)
      (rb_version \<lparr>rb_frame_addr = 0x1000, rb_version = 0, start_time = 0\<rparr>) = Some ex_offsets"
    by (simp add: ex_kernel_def bpf_array_lookup_elem_def)
  have na: "\<not> entry_aborts ex_consts ex_env ex_kernel"
    by (simp add: entry_aborts_def ex_kernel_def ex_env_def ex_consts_def
        bpf_map_lookup_elem_def bpf_array_lookup_elem_def)
  have t: "current_task ex_env \<noteq> 0" by (simp add: ex_env_def)
  have s: "sint (control_frame_t_sizeof ex_offsets) = 56" by (simp add: ex_offsets_def)
  have r1: "- (2 ^ 30) \<le> sint (control_frame_t_sizeof ex_offsets)"
    and r2: "sint (control_frame_t_sizeof ex_offsets) < 2 ^ 30"
    by (simp_all add: s)
  from entry_primes_sample [OF l v na t r1 r2] l v na t s
  show ?thesis
    by (simp add: Let_def ex_env_def ex_offsets_def ex_consts_def rbperf_read_def)
qed

subsection \<open>No frame beyond the top is decoded\<close>

lemma walk_loop_below_top:
  assumes "walk_loop c e vo fs n k f p = (k', f', p', log)"
  shows "\<forall>ev \<in> set log. fe_cfp ev \<le> base_stack (global_state k)"
proof -
  have "base_stack (global_state k') = base_stack (global_state k)
    \<and> (\<forall>ev \<in> set log. fe_cfp ev \<le> base_stack (global_state k)) \<and> length log \<le> n"
  proof (rule walk_loop_rule [OF assms,
        where I = "\<lambda>k1 f1 p1. base_stack (global_state k1) = base_stack (global_state k)"])
    show "base_stack (global_state k) = base_stack (global_state k)" by simp
  next
    fix k0 f0 p0 k1 f1 ev
    assume b: "base_stack (global_state k0) = base_stack (global_state k)"
      and le: "p0 \<le> base_stack (global_state k0)"
      and wf: "walk_frame c e vo k0 f0 p0 (rbperf_read (mem_u64 e) (p0 + iseq_offset c))
        (rbperf_read (mem_u64 e) (rbperf_read (mem_u64 e) p0)) = (k1, f1, ev)"
    from wf have "fe_cfp ev = p0"
      by (cases rule: walk_frame_cases) simp_all
    with b le walk_frame_keeps(1) [OF wf]
    show "base_stack (global_state k1) = base_stack (global_state k)
      \<and> fe_cfp ev \<le> base_stack (global_state k)" by simp
  qed
  then show ?thesis by simp
qed

lemma walk_loop_dropped:
  assumes "walk_loop c e vo fs n k f p = (k', f', p', log)"
  shows "(\<forall>ev \<in> set log. fe_slot ev = None \<longrightarrow>
            \<not> (0 \<le> size_stack (stack (global_state k'))
                \<and> size_stack (stack (global_state k')) < int (MAX_STACK c)))
    \<and> (\<not> (0 \<le> size_stack (stack (global_state k))
            \<and> size_stack (stack (global_state k)) < int (MAX_STACK c)) \<longrightarrow>
          size_stack (stack (global_state k')) = size_stack (stack (global_state k)))"
  using assms
proof (induction n arbitrary: k f p k' f' p' log)
  case 0
  then show ?case by simp
next
  case (Suc n)
  show ?case
  proof (cases "p > base_stack (global_state k)")
    case True
    with Suc.prems show ?thesis by simp
  next
    case False
    obtain k1 f1 ev where wf: "walk_frame c e vo k f p
        (rbperf_read (mem_u64 e) (p + iseq_offset c))
        (rbperf_read (mem_u64 e) (rbperf_read (mem_u64 e) p)) = (k1, f1, ev)"
      by (metis prod_cases3)
    obtain k2 f2 p2 l2 where wl: "walk_loop c e vo fs n k1 f1 (p + fs) = (k2, f2, p2, l2)"
      by (metis prod_cases4)
    from Suc.prems(1) False wf wl
    have eq: "k' = k2" "log = ev # l2"
      by (simp_all add: walk_loop_Suc)
    note IH = Suc.IH [OF wl, folded eq(1)]
    from wf show ?thesis
    proof (cases rule: walk_frame_cases)
      case (appended new_id k0)
      with IH eq show ?thesis by simp
    next
      case dropped
      with IH eq show ?thesis by auto
    qed
  qed
qed

lemma walk_loop_at_top:
  assumes "base_stack (global_state k) < p"
  shows "walk_loop c e vo fs n k f p = (k, f, p, [])"
  using assms by (cases n) simp_all

text \<open>
  Claim C9 says that in some walker state a control frame whose \<open>cfp\<close> already exceeds
  \<open>base_stack\<close> is decoded and then discarded by the size cap. No invocation of
  \<open>walk_ruby_stack\<close>, in any state, has a log entry for such a frame: the check of line
  223 leaves the loop before the decode step.
\<close>

theorem decode_beyond_top_counterexample:
  "\<not> (\<exists>c e k ev. ev \<in> set (snd (snd (walk_ruby_stack c e k)))
          \<and> base_stack (global_state k) < fe_cfp ev)"
proof
  assume "\<exists>c e k ev. ev \<in> set (snd (snd (walk_ruby_stack c e k)))
          \<and> base_stack (global_state k) < fe_cfp ev"
  then obtain c e k ev where
    ev: "ev \<in> set (snd (snd (walk_ruby_stack c e k)))"
    and top: "base_stack (global_state k) < fe_cfp ev" by blast
  show False
  proof (cases rule: walk_ruby_stack_cases [of k c e])
    case no_offsets
    with ev show ?thesis by simp
  next
    case (walked vo k2 f p1 log)
    from walked(3) ev have "ev \<in> set log" by (simp split: if_splits)
    with walk_loop_below_top [OF walked(2)] top show ?thesis by auto
  qed
qed

text \<open>
  Claim C9, amended. Every control frame that an invocation of \<open>walk_ruby_stack\<close> decodes
  lies at or below \<open>base_stack\<close>. An invocation entered with \<open>cfp\<close> above \<open>base_stack\<close>
  reads the frame's \<open>iseq\<close> and \<open>pc\<close> words and leaves the loop: it decodes nothing and
  leaves the size, the ids and the two frame tables as they were. A decoded frame whose
  id is not appended is one that was decoded when the sample was full: after the
  invocation the size is outside the range from 0 to \<open>MAX_STACK - 1\<close> that line 239
  accepts.
\<close>

theorem decode_only_below_top:
  "(\<forall>ev \<in> set (snd (snd (walk_ruby_stack c e k))).
       fe_cfp ev \<le> base_stack (global_state k)
       \<and> (fe_slot ev = None \<longrightarrow>
            \<not> (0 \<le> size_stack (stack (global_state (fst (snd (walk_ruby_stack c e k)))))
                \<and> size_stack (stack (global_state (fst (snd (walk_ruby_stack c e k)))))
                    < int (MAX_STACK c))))
   \<and> (base_stack (global_state k) < cfp (global_state k) \<longrightarrow>
        snd (snd (walk_ruby_stack c e k)) = []
        \<and> size_stack (stack (global_state (fst (snd (walk_ruby_stack c e k)))))
            = size_stack (stack (global_state k))
        \<and> frames (stack (global_state (fst (snd (walk_ruby_stack c e k)))))
            = frames (stack (global_state k))
        \<and> id_to_stack (fst (snd (walk_ruby_stack c e k))) = id_to_stack k
        \<and> stack_to_id (fst (snd (walk_ruby_stack c e k))) = stack_to_id k)"
proof (cases rule: walk_ruby_stack_cases [of k c e])
  case no_offsets
  then show ?thesis by simp
next
  case (walked vo k2 f p1 log)
  let ?k0 = "k\<lparr>global_state := (global_state k)\<lparr>ruby_stack_program_count :=
              ruby_stack_program_count (global_state k) + 1\<rparr>\<rparr>"
  have r: "snd (snd (walk_ruby_stack c e k)) = log"
    "size_stack (stack (global_state (fst (snd (walk_ruby_stack c e k)))))
       = size_stack (stack (global_state k2))"
    "frames (stack (global_state (fst (snd (walk_ruby_stack c e k)))))
       = frames (stack (global_state k2))"
    "id_to_stack (fst (snd (walk_ruby_stack c e k))) = id_to_stack k2"
    "stack_to_id (fst (snd (walk_ruby_stack c e k))) = stack_to_id k2"
    using walked(3) by (simp_all add: publish_simps)
  from walk_loop_below_top [OF walked(2)]
  have a: "\<forall>ev \<in> set log. fe_cfp ev \<le> base_stack (global_state k)" by simp
  from walk_loop_dropped [OF walked(2)]
  have b: "\<forall>ev \<in> set log. fe_slot ev = None \<longrightarrow>
            \<not> (0 \<le> size_stack (stack (global_state k2))
                \<and> size_stack (stack (global_state k2)) < int (MAX_STACK c))" by simp
  have t: "log = [] \<and> k2 = ?k0" if "base_stack (global_state k) < cfp (global_state k)"
  proof -
    from that have "base_stack (global_state ?k0) < cfp (global_state k)" by simp
    from walk_loop_at_top [OF this] walked(2) show ?thesis by simp
  qed
  from a b t show ?thesis unfolding r by auto
qed

theorem decode_only_below_top_witness:
  "snd (snd (walk_ruby_stack ex_consts ex_env ex_mid))
     = [\<lparr>fe_cfp = 0x10790, fe_iseq_addr = 0, fe_frame = ex_native, fe_slot = None\<rparr>]
   \<and> base_stack (global_state ex_mid) = 0x10790
   \<and> size_stack (stack (global_state (fst (snd (walk_ruby_stack ex_consts ex_env ex_mid))))) = 2
   \<and> MAX_STACK ex_consts = 2
   \<and> base_stack (global_state ex_final) < cfp (global_state ex_final)
   \<and> snd (snd (walk_ruby_stack ex_consts ex_env ex_final)) = []
   \<and> frames (stack (global_state (fst (snd (walk_ruby_stack ex_consts ex_env ex_final)))))
       = [1000, 1000]"
proof -
  have t: "base_stack (global_state ex_final) < cfp (global_state ex_final)"
    by (simp add: ex_final_def)
  have f: "frames (stack (global_state ex_final)) = [1000, 1000]"
    by (simp add: ex_final_def ex_record_def)
  from decode_only_below_top [of ex_consts ex_env ex_final] t f
  have top: "snd (snd (walk_ruby_stack ex_consts ex_env ex_final)) = []
    \<and> frames (stack (global_state (fst (snd (walk_ruby_stack ex_consts ex_env ex_final)))))
       = [1000, 1000]" by simp
  have mid: "snd (snd (walk_ruby_stack ex_consts ex_env ex_mid))
      = [\<lparr>fe_cfp = 0x10790, fe_iseq_addr = 0, fe_frame = ex_native, fe_slot = None\<rparr>]
    \<and> size_stack (stack (global_state (fst (snd (walk_ruby_stack ex_consts ex_env ex_mid))))) = 2"
    unfolding ex_walk2 snd_conv fst_conv
    by (simp add: ex_log2_def ex_final_def ex_record_def)
  have b: "base_stack (global_state ex_mid) = 0x10790" by (simp add: ex_mid_def)
  have m: "MAX_STACK ex_consts = 2" by (simp add: ex_consts_def)
  from top mid b m t show ?thesis by blast
qed

subsection \<open>The second event, run\<close>

lemmas ex2_defs = ex2_consts_def ex2_env_def ex2_kernel_def ex2_frame_a_def ex2_frame_n_def
  ex2_log_def ex2_primed_def ex2_record_def ex2_final_def

lemma replicate_3: "replicate 3 x = [x, x, x]"
  by (simp add: numeral_3_eq_3)

lemma ex2_on_event: "on_event ex2_consts ex2_env ex2_kernel = (Tail_call, ex2_primed)"
  by (simp add: ex_defs ex2_defs prog_defs Let_def)

lemma ex2_walk: "walk_ruby_stack ex2_consts ex2_env ex2_primed = (Exit, ex2_final, ex2_log)"
  by (simp add: ex_defs ex2_defs prog_defs read_frame_def read_ruby_string_def
      read_ruby_lineno_def rbperf_read_str_def Let_def replicate_2 replicate_3)

lemma ex2_handle_event:
  "handle_event ex2_consts ex2_env ex2_kernel =
     (ex2_final, [\<lparr>inv_action = Exit, inv_kernel = ex2_final, inv_log = ex2_log\<rparr>])"
  by (simp add: handle_event_def ex2_on_event walk_chain_Exit [OF ex2_walk])

subsection \<open>The frame record is zeroed once per invocation, not once per frame\<close>

lemma read_frame_wrong_type:
  assumes "rbperf_read (mem_u64 e)
             (rbperf_read (mem_u64 e) (body + ruby_location_offset c + path_offset c))
           AND RUBY_T_MASK c \<noteq> RUBY_T_STRING c"
    and "rbperf_read (mem_u64 e)
             (rbperf_read (mem_u64 e) (body + ruby_location_offset c + path_offset c))
           AND RUBY_T_MASK c \<noteq> RUBY_T_ARRAY c"
  shows "read_frame c e pc body current_frame version_offsets = current_frame"
  using assms by (simp add: read_frame_def Let_def)

text \<open>
  Claim C3 (not met by the code). \<open>current_frame\<close> is declared and zeroed before the loop
  (line 211) and each iteration works on what the previous one left. In the second
  event the third control frame has no instruction sequence and follows a decoded
  frame: the record interned and appended for it has the native marker over the tail of
  the previous method name, the previous path and the previous line number.
\<close>

theorem native_frame_after_decoded_frame:
  "fe_iseq_addr (concat (map inv_log (snd (handle_event ex2_consts ex2_env ex2_kernel))) ! 2) = 0
   \<and> fe_slot (concat (map inv_log (snd (handle_event ex2_consts ex2_env ex2_kernel))) ! 2)
       = Some (2, 1001)
   \<and> fe_frame (concat (map inv_log (snd (handle_event ex2_consts ex2_env ex2_kernel))) ! 2)
       = \<lparr>method_name = ''<native code>'' @ [NUL, CHR ''a'', NUL],
          path = ''a.rb'' @ [NUL, NUL, NUL, NUL], lineno = 7\<rparr>
   \<and> fe_frame (concat (map inv_log (snd (handle_event ex2_consts ex2_env ex2_kernel))) ! 2)
       \<noteq> \<lparr>method_name = ''<native code>'' @ [NUL, NUL, NUL], path = replicate 8 NUL, lineno = 0\<rparr>
   \<and> map_of (id_to_stack (fst (handle_event ex2_consts ex2_env ex2_kernel))) 1001
       = Some \<lparr>method_name = ''<native code>'' @ [NUL, CHR ''a'', NUL],
               path = ''a.rb'' @ [NUL, NUL, NUL, NUL], lineno = 7\<rparr>"
  unfolding ex2_handle_event fst_conv snd_conv
  by (simp add: ex2_log_def ex2_final_def ex2_frame_n_def ex2_frame_a_def NUL_def)

text \<open>
  Claim C4 (not met by the code). The decoder does return without writing a field when
  the path object is neither a string nor an array (\<open>read_frame_wrong_type\<close>), but the
  record it leaves is the previous iteration's. In the second event the second control
  frame has such a path object and follows a decoded frame: the record interned for it
  is the first frame's record, under the first frame's id, and not the zeroed record.
\<close>

theorem wrong_type_frame_after_decoded_frame:
  "fe_iseq_addr (concat (map inv_log (snd (handle_event ex2_consts ex2_env ex2_kernel))) ! 1)
     = 0x5100
   \<and> rbperf_read (mem_u64 ex2_env) 0x7400 AND RUBY_T_MASK ex2_consts = 8
   \<and> RUBY_T_STRING ex2_consts = 5 \<and> RUBY_T_ARRAY ex2_consts = 7
   \<and> fe_frame (concat (map inv_log (snd (handle_event ex2_consts ex2_env ex2_kernel))) ! 1)
       = \<lparr>method_name = ''block in initia'' @ [NUL], path = ''a.rb'' @ [NUL, NUL, NUL, NUL],
          lineno = 7\<rparr>
   \<and> fe_frame (concat (map inv_log (snd (handle_event ex2_consts ex2_env ex2_kernel))) ! 1)
       \<noteq> zero_frame ex2_consts
   \<and> fe_slot (concat (map inv_log (snd (handle_event ex2_consts ex2_env ex2_kernel))) ! 1)
       = Some (1, 1000)"
  unfolding ex2_handle_event fst_conv snd_conv
  by (simp add: ex2_log_def ex2_frame_a_def NUL_def zero_frame_def ex2_consts_def ex_consts_def
      ex2_env_def ex_env_def rbperf_read_def)

subsection \<open>A sample deeper than \<open>MAX_STACK\<close>\<close>

lemma walk_chain_invariant:
  assumes "P k"
    and "\<And>k a k' log. P k \<Longrightarrow> walk_ruby_stack c e k = (a, k', log) \<Longrightarrow> P k'"
  shows "\<forall>inv \<in> set (walk_chain c e k). P (inv_kernel inv)"
  using assms(1)
proof (induction k rule: walk_chain_induct [of c e])
  case (Exit k k' log)
  from assms(2) [OF Exit(2) Exit(1)]
  show ?case by (simp add: walk_chain_Exit [OF Exit(1)])
next
  case (Tail_call k k' log)
  from assms(2) [OF Tail_call(3) Tail_call(1)] Tail_call(2)
  show ?case by (simp add: walk_chain_Tail_call [OF Tail_call(1)])
qed

lemma observed_top_last:
  assumes "1 \<le> BPF_PROGRAMS_COUNT c"
    and "ruby_stack_program_count (global_state k) = 0"
  shows "observed_top c (walk_chain c e k)
    = (base_stack (global_state (inv_kernel (last (walk_chain c e k))))
        < cfp (global_state (inv_kernel (last (walk_chain c e k)))))"
proof -
  let ?invs = "walk_chain c e k"
  let ?top = "\<lambda>inv. base_stack (global_state (inv_kernel inv))
                     < cfp (global_state (inv_kernel inv))"
  from walk_chain_length [of c e k] assms
  have "length ?invs \<le> nat (BPF_PROGRAMS_COUNT c)" by simp
  then have tk: "take (nat (BPF_PROGRAMS_COUNT c)) ?invs = ?invs" by simp
  have split: "?invs = butlast ?invs @ [last ?invs]"
    by (simp add: walk_chain_not_Nil)
  from walk_chain_butlast [of c e k]
  have nb: "\<not> list_ex ?top (butlast ?invs)"
    by (auto simp: list_ex_iff)
  have "list_ex ?top ?invs = (list_ex ?top (butlast ?invs) \<or> ?top (last ?invs))"
    by (subst split) (simp del: append_butlast_last_id)
  with nb tk show ?thesis by (simp add: observed_top_def)
qed

lemma walk_frame_stack:
  assumes "walk_frame c e vo k f p ia pc = (k1, f1, ev)"
  shows "expected_size (stack (global_state k1)) = expected_size (stack (global_state k))"
  using assms by (cases rule: walk_frame_cases) simp_all

lemma walk_frame_inv:
  assumes wf: "walk_frame c e vo k f p ia pc = (k1, f1, ev)"
    and inv: "walk_inv (MAX_STACK c) start fs (base_stack (global_state k))
                (size_stack (stack (global_state k))) p"
    and le: "p \<le> base_stack (global_state k)"
    and nowrap: "unat (base_stack (global_state k)) + unat fs < 2 ^ 64"
  shows "walk_inv (MAX_STACK c) start fs (base_stack (global_state k1))
           (size_stack (stack (global_state k1))) (p + fs)"
proof -
  from inv [unfolded walk_inv_def] obtain j where
    j: "unat p = unat start + j * unat fs"
    and sz: "size_stack (stack (global_state k)) = int (min j (MAX_STACK c))"
    by blast
  from le have ple: "unat p \<le> unat (base_stack (global_state k))"
    by (simp add: word_le_nat_alt)
  with nowrap have "unat p + unat fs < 2 ^ LENGTH(64)" by simp
  then have up: "unat (p + fs) = unat p + unat fs"
    by (simp only: unat_add_lem)
  have step: "unat (p + fs) = unat start + Suc j * unat fs" using up j by simp
  have bound: "unat (p + fs) \<le> unat (base_stack (global_state k)) + unat fs"
    using up ple by simp
  from wf show ?thesis
  proof (cases rule: walk_frame_cases)
    case (appended new_id k0)
    from appended(2) sz have "j < MAX_STACK c" by simp
    then have "size_stack (stack (global_state k)) + 1 = int (min (Suc j) (MAX_STACK c))"
      using sz by simp
    with appended(4) step bound show ?thesis
      unfolding walk_inv_def by (intro exI [of _ "Suc j"]) simp
  next
    case dropped
    from dropped(1) sz have "MAX_STACK c \<le> j" by simp
    then have "size_stack (stack (global_state k)) = int (min (Suc j) (MAX_STACK c))"
      using sz by simp
    with dropped(2) step bound show ?thesis
      unfolding walk_inv_def by (intro exI [of _ "Suc j"]) simp
  qed
qed

lemma walk_ruby_stack_inv:
  assumes run: "walk_ruby_stack c e k = (a, k', log)"
    and vo: "bpf_array_lookup_elem (version_specific_offsets k)
               (sample_rb_version (global_state k)) = Some vo"
    and inv: "walk_inv (MAX_STACK c) start (scast (control_frame_t_sizeof vo))
                (base_stack (global_state k)) (size_stack (stack (global_state k)))
                (cfp (global_state k))"
    and nowrap: "unat (base_stack (global_state k))
                   + unat (scast (control_frame_t_sizeof vo) :: u64) < 2 ^ 64"
  shows "bpf_array_lookup_elem (version_specific_offsets k')
               (sample_rb_version (global_state k')) = Some vo
    \<and> base_stack (global_state k') = base_stack (global_state k)
    \<and> expected_size (stack (global_state k')) = expected_size (stack (global_state k))
    \<and> walk_inv (MAX_STACK c) start (scast (control_frame_t_sizeof vo))
         (base_stack (global_state k')) (size_stack (stack (global_state k')))
         (cfp (global_state k'))"
proof (cases rule: walk_ruby_stack_cases [of k c e])
  case no_offsets
  with vo show ?thesis by simp
next
  case (walked vo' k2 f p1 log2)
  with vo have [simp]: "vo' = vo" by simp
  let ?fs = "scast (control_frame_t_sizeof vo) :: u64"
  let ?b = "base_stack (global_state k)"
  let ?x = "expected_size (stack (global_state k))"
  let ?k0 = "k\<lparr>global_state := (global_state k)\<lparr>ruby_stack_program_count :=
              ruby_stack_program_count (global_state k) + 1\<rparr>\<rparr>"
  have "(base_stack (global_state k2) = ?b
       \<and> expected_size (stack (global_state k2)) = ?x
       \<and> walk_inv (MAX_STACK c) start ?fs (base_stack (global_state k2))
            (size_stack (stack (global_state k2))) p1)
    \<and> (\<forall>ev \<in> set log2. True) \<and> length log2 \<le> MAX_STACKS_PER_PROGRAM c"
  proof (rule walk_loop_rule [OF walked(2) [simplified],
        where I = "\<lambda>k1 f1 p. base_stack (global_state k1) = ?b
          \<and> expected_size (stack (global_state k1)) = ?x
          \<and> walk_inv (MAX_STACK c) start ?fs (base_stack (global_state k1))
               (size_stack (stack (global_state k1))) p"
        and Q = "\<lambda>ev. True"])
    show "base_stack (global_state ?k0) = ?b
      \<and> expected_size (stack (global_state ?k0)) = ?x
      \<and> walk_inv (MAX_STACK c) start ?fs (base_stack (global_state ?k0))
           (size_stack (stack (global_state ?k0))) (cfp (global_state k))"
      using inv by simp
  next
    fix k0 f0 p0 k1 f1 ev
    assume I: "base_stack (global_state k0) = ?b
        \<and> expected_size (stack (global_state k0)) = ?x
        \<and> walk_inv (MAX_STACK c) start ?fs (base_stack (global_state k0))
             (size_stack (stack (global_state k0))) p0"
      and le: "p0 \<le> base_stack (global_state k0)"
      and wf: "walk_frame c e vo k0 f0 p0 (rbperf_read (mem_u64 e) (p0 + iseq_offset c))
        (rbperf_read (mem_u64 e) (rbperf_read (mem_u64 e) p0)) = (k1, f1, ev)"
    from I nowrap have nw: "unat (base_stack (global_state k0)) + unat ?fs < 2 ^ 64" by simp
    from I have inv0: "walk_inv (MAX_STACK c) start ?fs (base_stack (global_state k0))
             (size_stack (stack (global_state k0))) p0" by blast
    from I have b0: "base_stack (global_state k0) = ?b"
      and x0: "expected_size (stack (global_state k0)) = ?x" by blast+
    from walk_frame_inv [OF wf inv0 le nw] b0 x0 walk_frame_keeps(1) [OF wf]
      walk_frame_stack [OF wf]
    show "(base_stack (global_state k1) = ?b
        \<and> expected_size (stack (global_state k1)) = ?x
        \<and> walk_inv (MAX_STACK c) start ?fs (base_stack (global_state k1))
             (size_stack (stack (global_state k1))) (p0 + ?fs)) \<and> True"
      by auto
  qed
  with walked(3) run walk_loop_keeps [OF walked(2)] vo show ?thesis
    by (auto simp: publish_simps split: if_splits)
qed

lemma walk_loop_full:
  assumes "walk_loop c e vo fs n k f p = (k', f', p', log)"
    and "\<not> (0 \<le> size_stack (stack (global_state k))
            \<and> size_stack (stack (global_state k)) < int (MAX_STACK c))"
  shows "k' = k \<and> (\<forall>ev \<in> set log. fe_slot ev = None)
    \<and> p' = p + of_nat (length log) * fs
    \<and> (p \<le> base_stack (global_state k) \<and> 0 < n \<longrightarrow> log \<noteq> [])"
  using assms
proof (induction n arbitrary: f p k' f' p' log)
  case 0
  then show ?case by simp
next
  case (Suc n)
  show ?case
  proof (cases "p > base_stack (global_state k)")
    case True
    with Suc.prems show ?thesis by simp
  next
    case False
    obtain k1 f1 ev where wf: "walk_frame c e vo k f p
        (rbperf_read (mem_u64 e) (p + iseq_offset c))
        (rbperf_read (mem_u64 e) (rbperf_read (mem_u64 e) p)) = (k1, f1, ev)"
      by (metis prod_cases3)
    from wf Suc.prems(2) have k1: "k1 = k" and ev: "fe_slot ev = None"
      by (cases rule: walk_frame_cases; simp)+
    obtain k2 f2 p2 l2 where wl: "walk_loop c e vo fs n k f1 (p + fs) = (k2, f2, p2, l2)"
      by (metis prod_cases4)
    from Suc.prems(1) False wf wl k1
    have eq: "k' = k2" "p' = p2" "log = ev # l2"
      by (simp_all add: walk_loop_Suc)
    from Suc.IH [OF wl Suc.prems(2)] eq ev show ?thesis
      by (simp add: algebra_simps)
  qed
qed

lemma on_event_primed:
  assumes "fst (on_event c e k) = Tail_call"
  shows "\<exists>vo. bpf_array_lookup_elem (version_specific_offsets (snd (on_event c e k)))
             (sample_rb_version (global_state (snd (on_event c e k)))) = Some vo
    \<and> expected_size (stack (global_state (snd (on_event c e k))))
        = (base_stack (global_state (snd (on_event c e k)))
             - (cfp (global_state (snd (on_event c e k))) - scast (control_frame_t_sizeof vo)))
          div scast (control_frame_t_sizeof vo)"
proof -
  let ?p = "ucast (drop_bit 32 (current_pid_tgid e)) :: u32"
  from assms obtain pd1 where
    oe: "on_event c e k = prime_sample c e (k\<lparr>pid_to_rb_thread :=
            AList.update ?p pd1 (pid_to_rb_thread k)\<rparr>) ?p pd1"
    by (auto simp: on_event_def Let_def split: option.splits if_splits)
  let ?k0 = "k\<lparr>pid_to_rb_thread := AList.update ?p pd1 (pid_to_rb_thread k)\<rparr>"
  from assms oe obtain vo where
    vo: "bpf_array_lookup_elem (version_specific_offsets ?k0) (rb_version pd1) = Some vo"
    by (cases "bpf_array_lookup_elem (version_specific_offsets ?k0) (rb_version pd1)")
      (auto simp: prime_sample_None)
  show ?thesis
    unfolding oe using vo
    by (intro exI [of _ vo]) (simp add: prime_sample_def lookup_global_state_def Let_def)
qed

lemma capped_size:
  assumes b: "1 \<le> BPF_PROGRAMS_COUNT c"
    and tc: "fst (on_event c e k) = Tail_call"
    and vo: "bpf_array_lookup_elem (version_specific_offsets (snd (on_event c e k)))
               (sample_rb_version (global_state (snd (on_event c e k)))) = Some vo"
    and pos: "0 < (scast (control_frame_t_sizeof vo) :: u64)"
    and below: "cfp (global_state (snd (on_event c e k))) - scast (control_frame_t_sizeof vo)
                  \<le> base_stack (global_state (snd (on_event c e k)))"
    and nowrap: "unat (base_stack (global_state (snd (on_event c e k))))
                   + unat (scast (control_frame_t_sizeof vo) :: u64) < 2 ^ 64"
    and deep: "int (MAX_STACK c)
                 < uint (expected_size (stack (global_state (snd (on_event c e k)))))"
    and top: "observed_top c (snd (handle_event c e k))"
  shows "\<exists>r. published k (fst (handle_event c e k)) = [r]
    \<and> stack_status r = STACK_COMPLETE \<and> size_stack r = int (MAX_STACK c)
    \<and> int (MAX_STACK c) < uint (expected_size r)"
proof -
  define k1 where "k1 = snd (on_event c e k)"
  define fs where "fs = (scast (control_frame_t_sizeof vo) :: u64)"
  define base where "base = base_stack (global_state k1)"
  define start where "start = cfp (global_state k1)"
  define x where "x = expected_size (stack (global_state k1))"
  define final where "final = inv_kernel (last (walk_chain c e k1))"
  from tc have oe: "on_event c e k = (Tail_call, k1)"
    unfolding k1_def by (metis prod.collapse)
  note he = handle_event_Tail_call [OF oe]
  from on_event_Tail_call [OF oe]
  have s0: "size_stack (stack (global_state k1)) = 0"
    and c0: "ruby_stack_program_count (global_state k1) = 0" by simp_all
  from vo have vo1: "bpf_array_lookup_elem (version_specific_offsets k1)
      (sample_rb_version (global_state k1)) = Some vo" by (simp add: k1_def)
  from on_event_primed [OF tc] vo
  have xeq: "x = (base - (start - fs)) div fs"
    by (auto simp: x_def base_def start_def fs_def k1_def)
  \<comment> \<open>the arithmetic of the start of the walk\<close>
  from below have c_le: "unat (start - fs) \<le> unat base"
    by (simp add: word_le_nat_alt start_def base_def fs_def k1_def)
  from nowrap have nw: "unat base + unat fs < 2 ^ 64"
    by (simp add: base_def fs_def k1_def)
  from c_le nw have "unat (start - fs) + unat fs < 2 ^ LENGTH(64)" by simp
  then have "unat ((start - fs) + fs) = unat (start - fs) + unat fs"
    by (simp only: unat_add_lem)
  then have ustart: "unat start = unat (start - fs) + unat fs" by simp
  have init: "walk_inv (MAX_STACK c) start fs base 0 start"
    unfolding walk_inv_def using ustart c_le by (intro exI [of _ 0]) simp
  \<comment> \<open>the invariant along the chain\<close>
  let ?P = "\<lambda>k'. bpf_array_lookup_elem (version_specific_offsets k')
               (sample_rb_version (global_state k')) = Some vo
      \<and> base_stack (global_state k') = base
      \<and> expected_size (stack (global_state k')) = x
      \<and> walk_inv (MAX_STACK c) start fs base (size_stack (stack (global_state k')))
           (cfp (global_state k'))"
  have "\<forall>inv \<in> set (walk_chain c e k1). ?P (inv_kernel inv)"
  proof (rule walk_chain_invariant)
    show "?P k1" using vo1 init s0 by (simp add: base_def x_def start_def)
  next
    fix k0 a k' log
    assume P: "?P k0" and run: "walk_ruby_stack c e k0 = (a, k', log)"
    from P have l: "bpf_array_lookup_elem (version_specific_offsets k0)
               (sample_rb_version (global_state k0)) = Some vo"
      and b0: "base_stack (global_state k0) = base"
      and x0: "expected_size (stack (global_state k0)) = x"
      and i0: "walk_inv (MAX_STACK c) start fs base (size_stack (stack (global_state k0)))
           (cfp (global_state k0))" by blast+
    from i0 b0 have i0': "walk_inv (MAX_STACK c) start (scast (control_frame_t_sizeof vo))
        (base_stack (global_state k0)) (size_stack (stack (global_state k0)))
        (cfp (global_state k0))" by (simp add: fs_def)
    from nw b0 have nw0: "unat (base_stack (global_state k0))
        + unat (scast (control_frame_t_sizeof vo) :: u64) < 2 ^ 64" by (simp add: fs_def)
    from walk_ruby_stack_inv [OF run l i0' nw0] b0 x0
    show "?P k'" by (auto simp: fs_def)
  qed
  moreover have "last (walk_chain c e k1) \<in> set (walk_chain c e k1)"
    by (simp add: walk_chain_not_Nil)
  ultimately have Pf: "?P final" unfolding final_def by blast
  then have bf: "base_stack (global_state final) = base"
    and xf: "expected_size (stack (global_state final)) = x"
    and invf: "walk_inv (MAX_STACK c) start fs base (size_stack (stack (global_state final)))
           (cfp (global_state final))" by blast+
  \<comment> \<open>the top was seen, at the last invocation\<close>
  from top he(1) have "observed_top c (walk_chain c e k1)" by simp
  with observed_top_last [OF b c0, of e] bf
  have topf: "base < cfp (global_state final)" by (simp add: final_def)
  then have utop: "unat base < unat (cfp (global_state final))"
    by (simp add: word_less_nat_alt)
  from invf [unfolded walk_inv_def] obtain j where
    j: "unat (cfp (global_state final)) = unat start + j * unat fs"
    and sz: "size_stack (stack (global_state final)) = int (min j (MAX_STACK c))"
    and ub: "unat (cfp (global_state final)) \<le> unat base + unat fs"
    by blast
  from pos have spos: "0 < unat fs" by (simp add: fs_def word_less_nat_alt)
  have "j * unat fs \<le> unat base - unat (start - fs)"
    using j ub ustart by linarith
  then have lo: "unat fs * j \<le> unat base - unat (start - fs)"
    by (simp add: mult.commute)
  have "unat base - unat (start - fs) < unat fs + j * unat fs"
    using j utop ustart c_le spos by linarith
  then have hi: "unat base - unat (start - fs) < unat fs * Suc j"
    by (simp add: mult.commute)
  have "unat x = (unat base - unat (start - fs)) div unat fs"
    using c_le by (simp add: xeq unat_div unat_sub word_le_nat_alt)
  also have "\<dots> = j" by (rule div_nat_eqI [OF lo hi])
  finally have xj: "unat x = j" .
  have "MAX_STACK c < unat x"
    using deep unfolding x_def k1_def uint_nat by (simp only: of_nat_less_iff)
  with xj sz have szf: "size_stack (stack (global_state final)) = int (MAX_STACK c)" by simp
  from on_event_Tail_call [OF oe]
  have lk: "bpf_array_lookup_elem (version_specific_offsets k1)
          (sample_rb_version (global_state k1)) \<noteq> None" by simp
  from walk_chain_last [OF lk, of c e] topf bf
  have st: "stack_status (stack (global_state final)) = STACK_COMPLETE"
    by (simp add: final_def)
  from he(1,2) have pub: "published k (fst (handle_event c e k)) = [stack (global_state final)]"
    by (simp add: final_def)
  from deep xf have "int (MAX_STACK c) < uint (expected_size (stack (global_state final)))"
    by (simp add: x_def k1_def)
  with pub st szf show ?thesis by blast
qed

lemma full_sample_walk:
  assumes full: "size_stack (stack (global_state k)) = int (MAX_STACK c)"
    and vo: "bpf_array_lookup_elem (version_specific_offsets k)
               (sample_rb_version (global_state k)) = Some vo"
  shows "(\<forall>ev \<in> set (snd (snd (walk_ruby_stack c e k))). fe_slot ev = None)
    \<and> id_to_stack (fst (snd (walk_ruby_stack c e k))) = id_to_stack k
    \<and> stack_to_id (fst (snd (walk_ruby_stack c e k))) = stack_to_id k
    \<and> prandom_calls (fst (snd (walk_ruby_stack c e k))) = prandom_calls k
    \<and> frames (stack (global_state (fst (snd (walk_ruby_stack c e k)))))
        = frames (stack (global_state k))
    \<and> size_stack (stack (global_state (fst (snd (walk_ruby_stack c e k)))))
        = int (MAX_STACK c)
    \<and> cfp (global_state (fst (snd (walk_ruby_stack c e k))))
        = cfp (global_state k)
          + of_nat (length (snd (snd (walk_ruby_stack c e k))))
            * scast (control_frame_t_sizeof vo)
    \<and> (cfp (global_state k) \<le> base_stack (global_state k) \<and> 0 < MAX_STACKS_PER_PROGRAM c
          \<longrightarrow> snd (snd (walk_ruby_stack c e k)) \<noteq> [])"
proof (cases rule: walk_ruby_stack_cases [of k c e])
  case no_offsets
  with vo show ?thesis by simp
next
  case (walked vo' k2 f p1 log)
  with vo have [simp]: "vo' = vo" by simp
  let ?k0 = "k\<lparr>global_state := (global_state k)\<lparr>ruby_stack_program_count :=
              ruby_stack_program_count (global_state k) + 1\<rparr>\<rparr>"
  from full have nf: "\<not> (0 \<le> size_stack (stack (global_state ?k0))
            \<and> size_stack (stack (global_state ?k0)) < int (MAX_STACK c))" by simp
  from walk_loop_full [OF walked(2) [simplified] nf]
  have k2: "k2 = ?k0" and slots: "\<forall>ev \<in> set log. fe_slot ev = None"
    and p1: "p1 = cfp (global_state k) + of_nat (length log) * scast (control_frame_t_sizeof vo)"
    and ne: "cfp (global_state k) \<le> base_stack (global_state k)
          \<and> 0 < MAX_STACKS_PER_PROGRAM c \<longrightarrow> log \<noteq> []"
    by simp_all
  have r: "snd (snd (walk_ruby_stack c e k)) = log"
    "id_to_stack (fst (snd (walk_ruby_stack c e k))) = id_to_stack k2"
    "stack_to_id (fst (snd (walk_ruby_stack c e k))) = stack_to_id k2"
    "prandom_calls (fst (snd (walk_ruby_stack c e k))) = prandom_calls k2"
    "frames (stack (global_state (fst (snd (walk_ruby_stack c e k)))))
       = frames (stack (global_state k2))"
    "size_stack (stack (global_state (fst (snd (walk_ruby_stack c e k)))))
       = size_stack (stack (global_state k2))"
    "cfp (global_state (fst (snd (walk_ruby_stack c e k)))) = p1"
    using walked(3) by (simp_all add: publish_simps)
  show ?thesis unfolding r using k2 slots p1 ne full by simp
qed

text \<open>
  Claim C10 says that every sample whose \<open>expected_size\<close> exceeds \<open>MAX_STACK\<close> and whose
  walk reaches the top within the budget is published COMPLETE with size \<open>MAX_STACK\<close>. In
  the third event the interpreter has pushed only its top sentinel frame: the \<open>cfp\<close> read
  from the execution context lies above \<open>base_stack\<close>, the unsigned difference
  \<open>base_stack - cfp\<close> wraps around and \<open>expected_size\<close> is huge, the walker sees the top at
  once, and the sample is published COMPLETE with size 0.
\<close>

theorem capped_sample_counterexample:
  "published ex_kernel (fst (handle_event ex_consts ex3_env ex_kernel)) = [ex3_record]
   \<and> observed_top ex_consts (snd (handle_event ex_consts ex3_env ex_kernel))
   \<and> int (MAX_STACK ex_consts) < uint (expected_size ex3_record)
   \<and> stack_status ex3_record = STACK_COMPLETE
   \<and> size_stack ex3_record = 0
   \<and> size_stack ex3_record \<noteq> int (MAX_STACK ex_consts)"
  by (simp add: handle_event_def walk_chain.simps ex_defs ex3_env_def ex3_record_def prog_defs
      Let_def published_def observed_top_def)

text \<open>
  Claim C10, amended. Take a sample in which the frame size is positive, the \<open>cfp\<close> read
  from the execution context lies at or below \<open>base_stack\<close>, and \<open>base_stack\<close> plus one
  frame does not wrap around the 64-bit address space. If its \<open>expected_size\<close> exceeds
  \<open>MAX_STACK\<close> and its walk reaches \<open>cfp > base_stack\<close> within the budget (of at least one
  invocation), exactly one record is published, with status COMPLETE and size
  \<open>MAX_STACK < expected_size\<close>. And once the size is \<open>MAX_STACK\<close>, an invocation of the
  walker still takes frames through the decode step and advances \<open>cfp\<close> by one frame size
  for each, but appends no id, draws no id and leaves both frame tables as they were.
\<close>

theorem capped_sample:
  "(1 \<le> BPF_PROGRAMS_COUNT c
     \<and> fst (on_event c e k) = Tail_call
     \<and> bpf_array_lookup_elem (version_specific_offsets (snd (on_event c e k)))
          (sample_rb_version (global_state (snd (on_event c e k)))) = Some vo
     \<and> 0 < (scast (control_frame_t_sizeof vo) :: u64)
     \<and> cfp (global_state (snd (on_event c e k))) - scast (control_frame_t_sizeof vo)
          \<le> base_stack (global_state (snd (on_event c e k)))
     \<and> unat (base_stack (global_state (snd (on_event c e k))))
          + unat (scast (control_frame_t_sizeof vo) :: u64) < 2 ^ 64
     \<and> int (MAX_STACK c) < uint (expected_size (stack (global_state (snd (on_event c e k)))))
     \<and> observed_top c (snd (handle_event c e k))
    \<longrightarrow> (\<exists>r. published k (fst (handle_event c e k)) = [r]
           \<and> stack_status r = STACK_COMPLETE \<and> size_stack r = int (MAX_STACK c)
           \<and> int (MAX_STACK c) < uint (expected_size r)))
   \<and> (size_stack (stack (global_state k2)) = int (MAX_STACK c)
       \<and> bpf_array_lookup_elem (version_specific_offsets k2)
            (sample_rb_version (global_state k2)) = Some vo2
    \<longrightarrow> (\<forall>ev \<in> set (snd (snd (walk_ruby_stack c e k2))). fe_slot ev = None)
        \<and> id_to_stack (fst (snd (walk_ruby_stack c e k2))) = id_to_stack k2
        \<and> stack_to_id (fst (snd (walk_ruby_stack c e k2))) = stack_to_id k2
        \<and> prandom_calls (fst (snd (walk_ruby_stack c e k2))) = prandom_calls k2
        \<and> frames (stack (global_state (fst (snd (walk_ruby_stack c e k2)))))
            = frames (stack (global_state k2))
        \<and> size_stack (stack (global_state (fst (snd (walk_ruby_stack c e k2)))))
            = int (MAX_STACK c)
        \<and> cfp (global_state (fst (snd (walk_ruby_stack c e k2))))
            = cfp (global_state k2)
              + of_nat (length (snd (snd (walk_ruby_stack c e k2))))
                * scast (control_frame_t_sizeof vo2)
        \<and> (cfp (global_state k2) \<le> base_stack (global_state k2)
             \<and> 0 < MAX_STACKS_PER_PROGRAM c
              \<longrightarrow> snd (snd (walk_ruby_stack c e k2)) \<noteq> []))"
proof (rule conjI; rule impI)
  assume "1 \<le> BPF_PROGRAMS_COUNT c
     \<and> fst (on_event c e k) = Tail_call
     \<and> bpf_array_lookup_elem (version_specific_offsets (snd (on_event c e k)))
          (sample_rb_version (global_state (snd (on_event c e k)))) = Some vo
     \<and> 0 < (scast (control_frame_t_sizeof vo) :: u64)
     \<and> cfp (global_state (snd (on_event c e k))) - scast (control_frame_t_sizeof vo)
          \<le> base_stack (global_state (snd (on_event c e k)))
     \<and> unat (base_stack (global_state (snd (on_event c e k))))
          + unat (scast (control_frame_t_sizeof vo) :: u64) < 2 ^ 64
     \<and> int (MAX_STACK c) < uint (expected_size (stack (global_state (snd (on_event c e k)))))
     \<and> observed_top c (snd (handle_event c e k))"
  then show "\<exists>r. published k (fst (handle_event c e k)) = [r]
           \<and> stack_status r = STACK_COMPLETE \<and> size_stack r = int (MAX_STACK c)
           \<and> int (MAX_STACK c) < uint (expected_size r)"
    by (intro capped_size [where vo = vo]) blast+
next
  assume "size_stack (stack (global_state k2)) = int (MAX_STACK c)
       \<and> bpf_array_lookup_elem (version_specific_offsets k2)
            (sample_rb_version (global_state k2)) = Some vo2"
  then have a: "size_stack (stack (global_state k2)) = int (MAX_STACK c)"
    and b: "bpf_array_lookup_elem (version_specific_offsets k2)
            (sample_rb_version (global_state k2)) = Some vo2" by blast+
  from full_sample_walk [OF a b, of e]
  show "(\<forall>ev \<in> set (snd (snd (walk_ruby_stack c e k2))). fe_slot ev = None)
        \<and> id_to_stack (fst (snd (walk_ruby_stack c e k2))) = id_to_stack k2
        \<and> stack_to_id (fst (snd (walk_ruby_stack c e k2))) = stack_to_id k2
        \<and> prandom_calls (fst (snd (walk_ruby_stack c e k2))) = prandom_calls k2
        \<and> frames (stack (global_state (fst (snd (walk_ruby_stack c e k2)))))
            = frames (stack (global_state k2))
        \<and> size_stack (stack (global_state (fst (snd (walk_ruby_stack c e k2)))))
            = int (MAX_STACK c)
        \<and> cfp (global_state (fst (snd (walk_ruby_stack c e k2))))
            = cfp (global_state k2)
              + of_nat (length (snd (snd (walk_ruby_stack c e k2))))
                * scast (control_frame_t_sizeof vo2)
        \<and> (cfp (global_state k2) \<le> base_stack (global_state k2)
             \<and> 0 < MAX_STACKS_PER_PROGRAM c
              \<longrightarrow> snd (snd (walk_ruby_stack c e k2)) \<noteq> [])" .
qed

theorem capped_sample_witness:
  "1 \<le> BPF_PROGRAMS_COUNT ex_consts
   \<and> on_event ex_consts ex_env ex_kernel = (Tail_call, ex_primed)
   \<and> bpf_array_lookup_elem (version_specific_offsets ex_primed)
        (sample_rb_version (global_state ex_primed)) = Some ex_offsets
   \<and> (scast (control_frame_t_sizeof ex_offsets) :: u64) = 56
   \<and> cfp (global_state ex_primed) - 56 = 0x106e8
   \<and> base_stack (global_state ex_primed) = 0x10790
   \<and> expected_size (stack (global_state ex_primed)) = 3
   \<and> MAX_STACK ex_consts = 2
   \<and> observed_top ex_consts (snd (handle_event ex_consts ex_env ex_kernel))
   \<and> published ex_kernel (fst (handle_event ex_consts ex_env ex_kernel)) = [ex_record]
   \<and> stack_status ex_record = STACK_COMPLETE
   \<and> size_stack ex_record = 2
   \<and> size_stack (stack (global_state ex_mid)) = 2
   \<and> map fe_slot (snd (snd (walk_ruby_stack ex_consts ex_env ex_mid))) = [None]
   \<and> id_to_stack (fst (snd (walk_ruby_stack ex_consts ex_env ex_mid))) = id_to_stack ex_mid
   \<and> cfp (global_state (fst (snd (walk_ruby_stack ex_consts ex_env ex_mid))))
       = cfp (global_state ex_mid) + 56"
proof -
  have b: "1 \<le> BPF_PROGRAMS_COUNT ex_consts" by (simp add: ex_consts_def)
  have tc: "fst (on_event ex_consts ex_env ex_kernel) = Tail_call"
    by (simp add: ex_on_event)
  have k1: "snd (on_event ex_consts ex_env ex_kernel) = ex_primed"
    by (simp add: ex_on_event)
  have vo: "bpf_array_lookup_elem (version_specific_offsets ex_primed)
        (sample_rb_version (global_state ex_primed)) = Some ex_offsets"
    by (simp add: ex_primed_def ex_kernel_def bpf_array_lookup_elem_def)
  have fs: "(scast (control_frame_t_sizeof ex_offsets) :: u64) = 56"
    by (simp add: ex_offsets_def)
  have geo: "cfp (global_state ex_primed) - 56 = 0x106e8"
    "base_stack (global_state ex_primed) = 0x10790"
    "expected_size (stack (global_state ex_primed)) = 3"
    by (simp_all add: ex_primed_def)
  have m: "MAX_STACK ex_consts = 2" by (simp add: ex_consts_def)
  have ot: "observed_top ex_consts (snd (handle_event ex_consts ex_env ex_kernel))"
    unfolding ex_handle_event snd_conv
    by (simp add: observed_top_def ex_final_def ex_mid_def ex_consts_def)
  have pub: "published ex_kernel (fst (handle_event ex_consts ex_env ex_kernel)) = [ex_record]"
    by (simp add: ex_handle_event ex_published)
  have hyp: "1 \<le> BPF_PROGRAMS_COUNT ex_consts
     \<and> fst (on_event ex_consts ex_env ex_kernel) = Tail_call
     \<and> bpf_array_lookup_elem (version_specific_offsets (snd (on_event ex_consts ex_env ex_kernel)))
          (sample_rb_version (global_state (snd (on_event ex_consts ex_env ex_kernel))))
          = Some ex_offsets
     \<and> 0 < (scast (control_frame_t_sizeof ex_offsets) :: u64)
     \<and> cfp (global_state (snd (on_event ex_consts ex_env ex_kernel)))
            - scast (control_frame_t_sizeof ex_offsets)
          \<le> base_stack (global_state (snd (on_event ex_consts ex_env ex_kernel)))
     \<and> unat (base_stack (global_state (snd (on_event ex_consts ex_env ex_kernel))))
          + unat (scast (control_frame_t_sizeof ex_offsets) :: u64) < 2 ^ 64
     \<and> int (MAX_STACK ex_consts)
          < uint (expected_size (stack (global_state (snd (on_event ex_consts ex_env ex_kernel)))))
     \<and> observed_top ex_consts (snd (handle_event ex_consts ex_env ex_kernel))"
    unfolding k1 fs using b tc vo geo m ot by simp
  have full: "size_stack (stack (global_state ex_mid)) = int (MAX_STACK ex_consts)
       \<and> bpf_array_lookup_elem (version_specific_offsets ex_mid)
            (sample_rb_version (global_state ex_mid)) = Some ex_offsets"
    by (simp add: ex_mid_def ex_primed_def ex_kernel_def ex_consts_def bpf_array_lookup_elem_def)
  note T = capped_sample [of ex_consts ex_env ex_kernel ex_offsets ex_mid ex_offsets]
  from T hyp pub have A: "stack_status ex_record = STACK_COMPLETE \<and> size_stack ex_record = 2"
    using m by auto
  from T full fs
  have B: "(\<forall>ev \<in> set (snd (snd (walk_ruby_stack ex_consts ex_env ex_mid))). fe_slot ev = None)
    \<and> id_to_stack (fst (snd (walk_ruby_stack ex_consts ex_env ex_mid))) = id_to_stack ex_mid
    \<and> cfp (global_state (fst (snd (walk_ruby_stack ex_consts ex_env ex_mid))))
        = cfp (global_state ex_mid)
          + of_nat (length (snd (snd (walk_ruby_stack ex_consts ex_env ex_mid)))) * 56"
    by simp
  have len: "length (snd (snd (walk_ruby_stack ex_consts ex_env ex_mid))) = 1"
    by (simp add: ex_walk2 ex_log2_def)
  from B len have B': "map fe_slot (snd (snd (walk_ruby_stack ex_consts ex_env ex_mid))) = [None]
    \<and> cfp (global_state (fst (snd (walk_ruby_stack ex_consts ex_env ex_mid))))
        = cfp (global_state ex_mid) + 56"
    by (cases "snd (snd (walk_ruby_stack ex_consts ex_env ex_mid))") auto
  have sm: "size_stack (stack (global_state ex_mid)) = 2" by (simp add: ex_mid_def)
  from b ex_on_event vo fs geo m ot pub A sm B B' show ?thesis by blast
qed

subsection \<open>The frame tables, round trip\<close>

lemma ids_kept_refl: "ids_kept k k"
  by (simp add: ids_kept_def)

lemma ids_kept_trans: "ids_kept k k1 \<Longrightarrow> ids_kept k1 k2 \<Longrightarrow> ids_kept k k2"
  by (simp add: ids_kept_def)

lemma length_update_new:
  assumes "key \<notin> fst ` set al"
  shows "length (AList.update key v al) = Suc (length al)"
  using assms by (induction al) auto

lemma find_or_insert_frame_found:
  assumes "map_of (stack_to_id k) f = Some i"
  shows "find_or_insert_frame e k f = (i, k)"
  using assms by (simp add: find_or_insert_frame_def bpf_map_lookup_elem_def)

lemma find_or_insert_frame_new:
  assumes miss: "map_of (stack_to_id k) f = None"
    and fresh: "map_of (id_to_stack k) (prandom e (prandom_calls k)) = None"
    and room: "length (id_to_stack k) < hash_max_entries"
    and fi: "find_or_insert_frame e k f = (i, k')"
  shows "i = prandom e (prandom_calls k)"
    "prandom_calls k' = Suc (prandom_calls k)"
    "map_of (id_to_stack k') = (map_of (id_to_stack k))(i \<mapsto> f)"
    "length (id_to_stack k') = Suc (length (id_to_stack k))"
    "map_of (stack_to_id k') = (map_of (stack_to_id k))(f \<mapsto> i)
       \<or> stack_to_id k' = stack_to_id k"
proof -
  let ?r = "prandom e (prandom_calls k)"
  from fresh have notin: "?r \<notin> fst ` set (id_to_stack k)"
    by (simp add: map_of_eq_None_iff)
  from fi miss have i: "i = ?r"
    and k': "k' = k\<lparr>prandom_calls := Suc (prandom_calls k),
                     stack_to_id := bpf_map_update_elem (stack_to_id k) f ?r,
                     id_to_stack := bpf_map_update_elem (id_to_stack k) ?r f\<rparr>"
    by (auto simp: find_or_insert_frame_def bpf_map_lookup_elem_def
        bpf_get_prandom_u32_def Let_def)
  show "i = ?r" by (rule i)
  show "prandom_calls k' = Suc (prandom_calls k)" by (simp add: k')
  from room show "map_of (id_to_stack k') = (map_of (id_to_stack k))(i \<mapsto> f)"
    by (simp add: k' i bpf_map_update_elem_def update_conv')
  from room notin show "length (id_to_stack k') = Suc (length (id_to_stack k))"
    by (simp add: k' bpf_map_update_elem_def length_update_new)
  show "map_of (stack_to_id k') = (map_of (stack_to_id k))(f \<mapsto> i)
       \<or> stack_to_id k' = stack_to_id k"
    by (simp add: k' i bpf_map_update_elem_def update_conv')
qed

lemma find_or_insert_frame_inv:
  assumes fi: "find_or_insert_frame e k f = (i, k')"
    and inv: "intern_inv c e p0 l0 k"
    and sz: "0 \<le> size_stack (stack (global_state k))"
      "size_stack (stack (global_state k)) < int (MAX_STACK c)"
    and room: "l0 + MAX_STACK c \<le> hash_max_entries"
    and fresh: "distinct (map (prandom e) [p0 ..< p0 + MAX_STACK c])"
  shows "map_of (id_to_stack k') i = Some f"
    "ids_kept k k'"
    "tables_agree k'"
    "p0 \<le> prandom_calls k'"
    "int (prandom_calls k') \<le> int p0 + size_stack (stack (global_state k)) + 1"
    "length (id_to_stack k') + p0 \<le> l0 + prandom_calls k'"
    "\<forall>n. prandom_calls k' \<le> n \<and> n < p0 + MAX_STACK c \<longrightarrow>
            map_of (id_to_stack k') (prandom e n) = None"
proof -
  from inv have ag: "tables_agree k"
    and lo: "p0 \<le> prandom_calls k"
    and calls: "int (prandom_calls k) \<le> int p0 + size_stack (stack (global_state k))"
    and len: "length (id_to_stack k) + p0 \<le> l0 + prandom_calls k"
    and unused: "\<forall>n. prandom_calls k \<le> n \<and> n < p0 + MAX_STACK c \<longrightarrow>
            map_of (id_to_stack k) (prandom e n) = None"
    by (simp_all add: intern_inv_def)
  have "map_of (id_to_stack k') i = Some f \<and> ids_kept k k' \<and> tables_agree k'
    \<and> p0 \<le> prandom_calls k'
    \<and> int (prandom_calls k') \<le> int p0 + size_stack (stack (global_state k)) + 1
    \<and> length (id_to_stack k') + p0 \<le> l0 + prandom_calls k'
    \<and> (\<forall>n. prandom_calls k' \<le> n \<and> n < p0 + MAX_STACK c \<longrightarrow>
            map_of (id_to_stack k') (prandom e n) = None)" (is ?goal)
  proof (cases "map_of (stack_to_id k) f")
    case (Some j)
    from find_or_insert_frame_found [OF Some, of e] fi have eq: "i = j" "k' = k" by simp_all
    from ag Some have "map_of (id_to_stack k) j = Some f" by (simp add: tables_agree_def)
    with eq ag lo calls len unused show ?thesis by (simp add: ids_kept_refl)
  next
    case None
    let ?r = "prandom e (prandom_calls k)"
    from calls sz lo have in_range: "prandom_calls k < p0 + MAX_STACK c" by linarith
    with unused have fr: "map_of (id_to_stack k) ?r = None" by simp
    from len in_range room have rm: "length (id_to_stack k) < hash_max_entries" by linarith
    note new = find_or_insert_frame_new [OF None fr rm fi]
    have kept: "ids_kept k k'"
      unfolding ids_kept_def using new(1,3) fr by auto
    have agree': "tables_agree k'"
      unfolding tables_agree_def
    proof (intro allI impI)
      fix g j
      assume g: "map_of (stack_to_id k') g = Some j"
      show "map_of (id_to_stack k') j = Some g"
      proof (cases "g = f \<and> j = i")
        case True
        with new(3) show ?thesis by simp
      next
        case False
        with g new(5) have old: "map_of (stack_to_id k) g = Some j"
          by (auto simp: None split: if_splits)
        with ag have "map_of (id_to_stack k) j = Some g" by (simp add: tables_agree_def)
        with kept show ?thesis by (simp add: ids_kept_def)
      qed
    qed
    have unused': "\<forall>n. prandom_calls k' \<le> n \<and> n < p0 + MAX_STACK c \<longrightarrow>
            map_of (id_to_stack k') (prandom e n) = None"
    proof (intro allI impI)
      fix n
      assume n: "prandom_calls k' \<le> n \<and> n < p0 + MAX_STACK c"
      with new(2) have n1: "prandom_calls k < n" "n < p0 + MAX_STACK c" by simp_all
      from fresh have inj: "inj_on (prandom e) {p0 ..< p0 + MAX_STACK c}"
        by (simp add: distinct_map)
      from n1 lo have "n \<in> {p0 ..< p0 + MAX_STACK c}" by simp
      moreover from lo in_range have "prandom_calls k \<in> {p0 ..< p0 + MAX_STACK c}" by simp
      moreover from n1 have "n \<noteq> prandom_calls k" by simp
      ultimately have ne: "prandom e n \<noteq> prandom e (prandom_calls k)"
        using inj by (auto dest: inj_onD)
      from n1 unused have "map_of (id_to_stack k) (prandom e n) = None" by simp
      with ne show "map_of (id_to_stack k') (prandom e n) = None"
        using new(1,3) by simp
    qed
    from new kept agree' unused' lo calls len show ?thesis by simp
  qed
  then show "map_of (id_to_stack k') i = Some f"
    "ids_kept k k'"
    "tables_agree k'"
    "p0 \<le> prandom_calls k'"
    "int (prandom_calls k') \<le> int p0 + size_stack (stack (global_state k)) + 1"
    "length (id_to_stack k') + p0 \<le> l0 + prandom_calls k'"
    "\<forall>n. prandom_calls k' \<le> n \<and> n < p0 + MAX_STACK c \<longrightarrow>
            map_of (id_to_stack k') (prandom e n) = None"
    by blast+
qed

lemma sample_kept_refl: "sample_kept k k"
  by (simp add: sample_kept_def ids_kept_refl)

lemma sample_kept_trans:
  assumes "sample_kept k k1" and "sample_kept k1 k2"
  shows "sample_kept k k2"
  using assms ids_kept_trans [of k k1 k2]
  by (auto simp: sample_kept_def)

lemma resolves_kept:
  assumes "resolves k ev" and "sample_kept k k'"
  shows "resolves k' ev"
  using assms
  by (auto simp: resolves_def sample_kept_def ids_kept_def split: option.splits)

lemma walk_frame_intern:
  assumes wf: "walk_frame c e vo k f p ia pc = (k1, f1, ev)"
    and inv: "intern_inv c e p0 l0 k"
    and len: "MAX_STACK c \<le> length (frames (stack (global_state k)))"
    and room: "l0 + MAX_STACK c \<le> hash_max_entries"
    and fresh: "distinct (map (prandom e) [p0 ..< p0 + MAX_STACK c])"
  shows "intern_inv c e p0 l0 k1 \<and> resolves k1 ev \<and> sample_kept k k1"
  using wf
proof (cases rule: walk_frame_cases)
  case (appended new_id k0)
  note fi = find_or_insert_frame_inv [OF appended(3) inv appended(1,2) room fresh]
  from find_or_insert_frame_keeps(1) [OF appended(3)]
  have gs: "global_state k0 = global_state k" .
  let ?n = "nat (size_stack (stack (global_state k)))"
  from appended(1,2) len have n: "?n < length (frames (stack (global_state k)))" by linarith
  have maps: "id_to_stack k1 = id_to_stack k0" "stack_to_id k1 = stack_to_id k0"
    "prandom_calls k1 = prandom_calls k0"
    "size_stack (stack (global_state k1)) = size_stack (stack (global_state k)) + 1"
    "frames (stack (global_state k1)) = (frames (stack (global_state k)))[?n := new_id]"
    by (simp_all add: appended(4))
  have "intern_inv c e p0 l0 k1"
    unfolding intern_inv_def tables_agree_def maps
    using fi(3-7) by (simp add: tables_agree_def)
  moreover have "resolves k1 ev"
    unfolding resolves_def maps appended(6)
    using fi(1) appended(1,5) n by simp
  moreover have "sample_kept k k1"
    unfolding sample_kept_def ids_kept_def maps
    using fi(2) appended(1) by (auto simp: ids_kept_def)
  ultimately show ?thesis by blast
next
  case dropped
  with inv show ?thesis by (simp add: resolves_def sample_kept_refl)
qed

text \<open>
  The invariant rule of the loop once more, with what every walked frame establishes of
  its log entry stated in the state after that frame, and carried to the end of the
  loop by a relation between earlier and later states.
\<close>

lemma walk_loop_rule_kept:
  assumes run: "walk_loop c e vo fs n k f p = (k', f', p', log)"
    and init: "I k"
    and step: "\<And>k f p k1 f1 ev.
      I k \<Longrightarrow> p \<le> base_stack (global_state k) \<Longrightarrow>
      walk_frame c e vo k f p (rbperf_read (mem_u64 e) (p + iseq_offset c))
        (rbperf_read (mem_u64 e) (rbperf_read (mem_u64 e) p)) = (k1, f1, ev) \<Longrightarrow>
      I k1 \<and> Q k1 ev \<and> R k k1"
    and refl: "\<And>k. R k k"
    and trans: "\<And>k k1 k2. R k k1 \<Longrightarrow> R k1 k2 \<Longrightarrow> R k k2"
    and kept: "\<And>k k1 ev. Q k ev \<Longrightarrow> R k k1 \<Longrightarrow> Q k1 ev"
  shows "I k' \<and> (\<forall>ev \<in> set log. Q k' ev) \<and> R k k'"
  using run init
proof (induction n arbitrary: k f p log)
  case 0
  then show ?case by (simp add: refl)
next
  case (Suc n)
  show ?case
  proof (cases "p > base_stack (global_state k)")
    case True
    with Suc.prems show ?thesis by (simp add: refl)
  next
    case False
    obtain k1 f1 ev where wf: "walk_frame c e vo k f p
        (rbperf_read (mem_u64 e) (p + iseq_offset c))
        (rbperf_read (mem_u64 e) (rbperf_read (mem_u64 e) p)) = (k1, f1, ev)"
      by (metis prod_cases3)
    obtain k2 f2 p2 l2 where wl: "walk_loop c e vo fs n k1 f1 (p + fs) = (k2, f2, p2, l2)"
      by (metis prod_cases4)
    from Suc.prems(1) False wf wl
    have eq: "k' = k2" "f' = f2" "p' = p2" "log = ev # l2"
      by (simp_all add: walk_loop_Suc)
    from False have le: "p \<le> base_stack (global_state k)" by simp
    from step [OF Suc.prems(2) le wf]
    have I1: "I k1" and Q: "Q k1 ev" and R: "R k k1" by simp_all
    from wl eq have wl': "walk_loop c e vo fs n k1 f1 (p + fs) = (k', f', p', l2)" by simp
    from Suc.IH [OF wl' I1]
    have If: "I k'" and Qs: "\<forall>ev \<in> set l2. Q k' ev" and R1: "R k1 k'" by simp_all
    from kept [OF Q R1] trans [OF R R1] If Qs eq(4) show ?thesis by simp
  qed
qed

lemma walk_ruby_stack_intern:
  assumes run: "walk_ruby_stack c e k = (a, k', log)"
    and inv: "intern_inv c e p0 l0 k"
    and len: "MAX_STACK c \<le> length (frames (stack (global_state k)))"
    and room: "l0 + MAX_STACK c \<le> hash_max_entries"
    and fresh: "distinct (map (prandom e) [p0 ..< p0 + MAX_STACK c])"
  shows "intern_inv c e p0 l0 k'
    \<and> MAX_STACK c \<le> length (frames (stack (global_state k')))
    \<and> (\<forall>ev \<in> set log. resolves k' ev) \<and> sample_kept k k'"
proof (cases rule: walk_ruby_stack_cases [of k c e])
  case no_offsets
  with run inv len show ?thesis by (simp add: sample_kept_refl)
next
  case (walked vo k2 f p1 log2)
  let ?k0 = "k\<lparr>global_state := (global_state k)\<lparr>ruby_stack_program_count :=
              ruby_stack_program_count (global_state k) + 1\<rparr>\<rparr>"
  have loop: "(intern_inv c e p0 l0 k2
        \<and> MAX_STACK c \<le> length (frames (stack (global_state k2))))
    \<and> (\<forall>ev \<in> set log2. resolves k2 ev) \<and> sample_kept ?k0 k2"
  proof (rule walk_loop_rule_kept [OF walked(2),
        where I = "\<lambda>k1. intern_inv c e p0 l0 k1
          \<and> MAX_STACK c \<le> length (frames (stack (global_state k1)))"
        and Q = resolves and R = sample_kept])
    show "intern_inv c e p0 l0 ?k0
        \<and> MAX_STACK c \<le> length (frames (stack (global_state ?k0)))"
      using inv len by (simp add: intern_inv_def tables_agree_def)
  next
    fix k0 f0 p k1 f1 ev
    assume I: "intern_inv c e p0 l0 k0
          \<and> MAX_STACK c \<le> length (frames (stack (global_state k0)))"
      and wf: "walk_frame c e vo k0 f0 p (rbperf_read (mem_u64 e) (p + iseq_offset c))
        (rbperf_read (mem_u64 e) (rbperf_read (mem_u64 e) p)) = (k1, f1, ev)"
    from I have i0: "intern_inv c e p0 l0 k0"
      and l0: "MAX_STACK c \<le> length (frames (stack (global_state k0)))" by blast+
    from walk_frame_intern [OF wf i0 l0 room fresh] l0
    show "(intern_inv c e p0 l0 k1
          \<and> MAX_STACK c \<le> length (frames (stack (global_state k1))))
        \<and> resolves k1 ev \<and> sample_kept k0 k1"
      by (auto simp: sample_kept_def)
  qed (rule sample_kept_refl, erule (1) sample_kept_trans, erule (1) resolves_kept)
  have same: "id_to_stack k' = id_to_stack k2" "stack_to_id k' = stack_to_id k2"
    "prandom_calls k' = prandom_calls k2"
    "size_stack (stack (global_state k')) = size_stack (stack (global_state k2))"
    "frames (stack (global_state k')) = frames (stack (global_state k2))"
    "log = log2"
    using walked(3) run by (auto simp: publish_simps split: if_splits)
  have k0: "sample_kept k ?k0" by (simp add: sample_kept_def ids_kept_def)
  from loop have "sample_kept ?k0 k2" by blast
  with k0 have "sample_kept k k2" by (rule sample_kept_trans)
  then have kept: "sample_kept k k'"
    unfolding sample_kept_def ids_kept_def same .
  from loop have "intern_inv c e p0 l0 k2" by blast
  then have inv': "intern_inv c e p0 l0 k'"
    unfolding intern_inv_def tables_agree_def same .
  from loop have "\<forall>ev \<in> set log2. resolves k2 ev" by blast
  then have res: "\<forall>ev \<in> set log. resolves k' ev"
    unfolding resolves_def same .
  from loop have "MAX_STACK c \<le> length (frames (stack (global_state k2)))" by blast
  with inv' res kept show ?thesis by (simp add: same)
qed

lemma walk_chain_intern:
  assumes room: "l0 + MAX_STACK c \<le> hash_max_entries"
    and fresh: "distinct (map (prandom e) [p0 ..< p0 + MAX_STACK c])"
    and inv: "intern_inv c e p0 l0 k"
    and len: "MAX_STACK c \<le> length (frames (stack (global_state k)))"
  shows "sample_kept k (inv_kernel (last (walk_chain c e k)))
    \<and> (\<forall>inv \<in> set (walk_chain c e k). \<forall>ev \<in> set (inv_log inv).
          resolves (inv_kernel (last (walk_chain c e k))) ev)"
  using inv len
proof (induction k rule: walk_chain_induct [of c e])
  case (Exit k k' log)
  from walk_ruby_stack_intern [OF Exit(1) Exit(2) Exit(3) room fresh]
  show ?case by (simp add: walk_chain_Exit [OF Exit(1)])
next
  case (Tail_call k k' log)
  note step = walk_ruby_stack_intern [OF Tail_call(1) Tail_call(3) Tail_call(4) room fresh]
  from step have i': "intern_inv c e p0 l0 k'"
    and l': "MAX_STACK c \<le> length (frames (stack (global_state k')))"
    and res: "\<forall>ev \<in> set log. resolves k' ev"
    and kept: "sample_kept k k'" by blast+
  from Tail_call(2) [OF i' l']
  have kf: "sample_kept k' (inv_kernel (last (walk_chain c e k')))"
    and rest: "\<forall>inv \<in> set (walk_chain c e k'). \<forall>ev \<in> set (inv_log inv).
          resolves (inv_kernel (last (walk_chain c e k'))) ev" by blast+
  from res kf have "\<forall>ev \<in> set log. resolves (inv_kernel (last (walk_chain c e k'))) ev"
    by (blast intro: resolves_kept)
  with rest sample_kept_trans [OF kept kf] show ?case
    by (simp add: walk_chain_Tail_call [OF Tail_call(1)] walk_chain_not_Nil)
qed

lemma ex4_on_event: "on_event ex2_consts ex4_env ex2_kernel = (Tail_call, ex2_primed)"
  by (simp add: ex_defs ex2_defs ex4_env_def prog_defs Let_def)

lemma ex4_walk: "walk_ruby_stack ex2_consts ex4_env ex2_primed = (Exit, ex4_final, ex4_log)"
  by (simp add: ex_defs ex2_defs ex4_env_def ex4_log_def ex4_record_def ex4_final_def prog_defs
      read_frame_def read_ruby_string_def read_ruby_lineno_def rbperf_read_str_def Let_def
      replicate_2 replicate_3)

lemma ex4_handle_event:
  "handle_event ex2_consts ex4_env ex2_kernel =
     (ex4_final, [\<lparr>inv_action = Exit, inv_kernel = ex4_final, inv_log = ex4_log\<rparr>])"
  by (simp add: handle_event_def ex4_on_event walk_chain_Exit [OF ex4_walk])

lemma on_event_tables:
  "id_to_stack (snd (on_event c e k)) = id_to_stack k
   \<and> stack_to_id (snd (on_event c e k)) = stack_to_id k
   \<and> prandom_calls (snd (on_event c e k)) = prandom_calls k"
  using prime_sample_keeps
  by (simp add: on_event_def Let_def split: option.splits)

lemma on_event_frames:
  "frames (stack (global_state (snd (on_event c e k)))) = frames (stack (global_state k))"
proof -
  have "frames (stack (global_state (snd (prime_sample c e k0 p pd))))
      = frames (stack (global_state k0))" for k0 p pd
    by (simp add: prime_sample_def lookup_global_state_def Let_def split: option.splits)
  then show ?thesis
    by (simp add: on_event_def Let_def split: option.splits)
qed

text \<open>
  Claim C2 says that every id appended to a sample resolves, at publication, to the frame
  that was interned for its position. The ids are drawn at random and a draw is not
  checked against the ids in use: in the second event with a generator that returns
  1000 twice, the first frame is interned under 1000, the third frame (a different
  record) draws 1000 again and overwrites the entry of \<open>id_to_stack\<close>; the published
  sample has 1000 at slot 0, which no longer resolves to the first frame.
\<close>

theorem frame_table_round_trip_counterexample:
  "fe_slot (hd (concat (map inv_log (snd (handle_event ex2_consts ex4_env ex2_kernel)))))
     = Some (0, 1000)
   \<and> fe_frame (hd (concat (map inv_log (snd (handle_event ex2_consts ex4_env ex2_kernel)))))
       = ex2_frame_a
   \<and> map frames (published ex2_kernel (fst (handle_event ex2_consts ex4_env ex2_kernel)))
       = [[1000, 1000, 1000, 0]]
   \<and> bpf_map_lookup_elem (id_to_stack (fst (handle_event ex2_consts ex4_env ex2_kernel))) 1000
       = Some ex2_frame_n
   \<and> ex2_frame_n \<noteq> ex2_frame_a"
  unfolding ex4_handle_event fst_conv snd_conv
  by (simp add: ex4_log_def ex4_final_def ex4_record_def ex2_record_def ex2_primed_def
      ex2_kernel_def ex_kernel_def published_def bpf_map_lookup_elem_def ex2_frame_a_def
      ex2_frame_n_def)

text \<open>
  Claim C2, amended. Suppose that when the event fires the two frame tables agree,
  \<open>id_to_stack\<close> has room for \<open>MAX_STACK\<close> more entries, and the next \<open>MAX_STACK\<close> draws of the
  generator are distinct from each other and from every id in \<open>id_to_stack\<close> (the
  \<open>frames\<close> array has its \<open>MAX_STACK\<close> slots). Then for every id that an invocation of
  \<open>walk_ruby_stack\<close> appends to the sample, at the end of the event \<open>id_to_stack\<close> maps the
  id to the frame record that was passed to the interner for that position, and the
  published record holds the id at that position.
\<close>

theorem frame_table_round_trip:
  assumes "tables_agree k"
    and "length (id_to_stack k) + MAX_STACK c \<le> hash_max_entries"
    and "distinct (map (prandom e) [prandom_calls k ..< prandom_calls k + MAX_STACK c])"
    and "\<forall>n \<in> {prandom_calls k ..< prandom_calls k + MAX_STACK c}.
           map_of (id_to_stack k) (prandom e n) = None"
    and "MAX_STACK c \<le> length (frames (stack (global_state k)))"
  shows "\<forall>inv \<in> set (snd (handle_event c e k)). \<forall>ev \<in> set (inv_log inv). \<forall>slot i.
           fe_slot ev = Some (slot, i) \<longrightarrow>
             bpf_map_lookup_elem (id_to_stack (fst (handle_event c e k))) i = Some (fe_frame ev)
             \<and> (\<forall>r \<in> set (published k (fst (handle_event c e k))).
                   int slot < size_stack r \<and> frames r ! slot = i)"
proof -
  obtain a k1 where oe: "on_event c e k = (a, k1)" by (metis surj_pair)
  show ?thesis
  proof (cases a)
    case Exit
    with oe handle_event_Exit [of c e k k1] show ?thesis by simp
  next
    case Tail_call
    with oe have oe': "on_event c e k = (Tail_call, k1)" by simp
    note he = handle_event_Tail_call [OF oe']
    let ?final = "inv_kernel (last (walk_chain c e k1))"
    from on_event_tables [of c e k] oe'
    have tabs: "id_to_stack k1 = id_to_stack k" "stack_to_id k1 = stack_to_id k"
      "prandom_calls k1 = prandom_calls k" by simp_all
    from on_event_frames [of c e k] oe'
    have fr: "frames (stack (global_state k1)) = frames (stack (global_state k))" by simp
    from on_event_Tail_call [OF oe']
    have s0: "size_stack (stack (global_state k1)) = 0" by simp
    have inv: "intern_inv c e (prandom_calls k) (length (id_to_stack k)) k1"
      unfolding intern_inv_def tables_agree_def tabs s0
      using assms(1,4) by (simp add: tables_agree_def)
    from assms(5) fr have len: "MAX_STACK c \<le> length (frames (stack (global_state k1)))"
      by simp
    from walk_chain_intern [OF assms(2,3) inv len]
    have res: "\<forall>inv \<in> set (walk_chain c e k1). \<forall>ev \<in> set (inv_log inv). resolves ?final ev"
      by blast
    show ?thesis
      unfolding he(1) fst_conv snd_conv he(2)
      using res
      by (auto simp: resolves_def bpf_map_lookup_elem_def split: option.splits)
  qed
qed

theorem frame_table_round_trip_witness:
  "stack_to_id ex2_kernel = [] \<and> id_to_stack ex2_kernel = []
   \<and> MAX_STACK ex2_consts = 4 \<and> prandom_calls ex2_kernel = 0
   \<and> map (prandom ex2_env) [0, 1, 2, 3] = [1000, 1001, 1002, 1003]
   \<and> length (frames (stack (global_state ex2_kernel))) = 4
   \<and> map fe_slot (concat (map inv_log (snd (handle_event ex2_consts ex2_env ex2_kernel))))
       = [Some (0, 1000), Some (1, 1000), Some (2, 1001)]
   \<and> bpf_map_lookup_elem (id_to_stack (fst (handle_event ex2_consts ex2_env ex2_kernel))) 1000
       = Some ex2_frame_a
   \<and> bpf_map_lookup_elem (id_to_stack (fst (handle_event ex2_consts ex2_env ex2_kernel))) 1001
       = Some ex2_frame_n
   \<and> map frames (published ex2_kernel (fst (handle_event ex2_consts ex2_env ex2_kernel)))
       = [[1000, 1000, 1001, 0]]"
proof -
  have t: "stack_to_id ex2_kernel = []" "id_to_stack ex2_kernel = []"
    "prandom_calls ex2_kernel = 0"
    "length (frames (stack (global_state ex2_kernel))) = 4"
    by (simp_all add: ex2_kernel_def ex_kernel_def)
  have m: "MAX_STACK ex2_consts = 4" by (simp add: ex2_consts_def)
  have u: "[0 ..< 4] = [0, 1, 2, 3::nat]" by (simp add: upt_rec)
  have d: "map (prandom ex2_env) [0, 1, 2, 3] = [1000, 1001, 1002, 1003]"
    by (simp add: ex2_env_def ex_env_def)
  have h1: "tables_agree ex2_kernel" by (simp add: tables_agree_def t)
  have h2: "length (id_to_stack ex2_kernel) + MAX_STACK ex2_consts \<le> hash_max_entries"
    by (simp add: t m hash_max_entries_def)
  have h3: "distinct (map (prandom ex2_env)
      [prandom_calls ex2_kernel ..< prandom_calls ex2_kernel + MAX_STACK ex2_consts])"
  proof -
    have "[prandom_calls ex2_kernel ..< prandom_calls ex2_kernel + MAX_STACK ex2_consts]
        = [0, 1, 2, 3]" by (simp add: t m u)
    then show ?thesis by (simp only: d) simp
  qed
  have h4: "\<forall>n \<in> {prandom_calls ex2_kernel ..< prandom_calls ex2_kernel + MAX_STACK ex2_consts}.
           map_of (id_to_stack ex2_kernel) (prandom ex2_env n) = None"
    by (simp add: t)
  have h5: "MAX_STACK ex2_consts \<le> length (frames (stack (global_state ex2_kernel)))"
    by (simp add: t m)
  have pub: "published ex2_kernel ex2_final = [ex2_record]"
    by (simp add: published_def ex2_final_def ex2_primed_def ex2_kernel_def ex_kernel_def)
  from frame_table_round_trip [OF h1 h2 h3 h4 h5]
  have "bpf_map_lookup_elem (id_to_stack (fst (handle_event ex2_consts ex2_env ex2_kernel))) 1000
       = Some ex2_frame_a
     \<and> bpf_map_lookup_elem (id_to_stack (fst (handle_event ex2_consts ex2_env ex2_kernel))) 1001
       = Some ex2_frame_n
     \<and> map frames (published ex2_kernel (fst (handle_event ex2_consts ex2_env ex2_kernel)))
       = [[1000, 1000, 1001, 0]]"
    unfolding ex2_handle_event fst_conv snd_conv pub
    by (simp add: ex2_log_def ex2_record_def)
  with t m d show ?thesis
    unfolding ex2_handle_event fst_conv snd_conv by (simp add: ex2_log_def)
qed

end
